theory Spec2Isabelle
  imports Main "HOL-Library.Word" "HOL-Library.Dlist"
begin

unbundle bit_operations_syntax

section \<open>The WiredTiger session cache and its per-session cursor cache\<close>

text \<open>
  A shallow embedding of \<^verbatim>\<open>wiredtiger_session_cache.{h,cpp}\<close>: the classes
  \<^verbatim>\<open>WiredTigerCachedCursor\<close>, \<^verbatim>\<open>WiredTigerSession\<close> and
  \<^verbatim>\<open>WiredTigerSessionCache\<close>. Members keep their names without the leading
  underscore (\<^verbatim>\<open>_cursorGen\<close> is \<open>cursorGen\<close>); the members of a cached cursor carry the
  prefix \<open>cc_\<close>, and the two members the cache shares by name with a session or with one of
  its own methods are \<open>cache_epoch\<close> and \<open>shuttingDownWord\<close>.

  Pointers to engine objects (\<^verbatim>\<open>WT_SESSION*\<close>, \<^verbatim>\<open>WT_CURSOR*\<close>) are natural numbers,
  0 being \<^verbatim>\<open>nullptr\<close>. The 32-bit shutdown word and the 64-bit cursor generation are
  machine words. The cache epoch (one increment per \<^verbatim>\<open>closeAll\<close>) is a natural number: no
  run performs the \<open>2 ^ 64\<close> increments that would make it wrap. \<^verbatim>\<open>Date_t\<close> is the
  number of milliseconds it holds.

  The wait and the notification for prepared units of work, and the flush of the size
  storer, touch none of the state described here and are left out.
\<close>

subsection \<open>The storage engine, as seen from the cache\<close>

type_synonym WT_SESSION = nat
type_synonym WT_CURSOR = nat
type_synonym Date_t = int

text \<open>The calls the code makes on the engine. The engine records each call it receives.\<close>

datatype wt_call =
    open_session
  | session_close WT_SESSION
  | open_cursor WT_SESSION string "string option"
  | cursor_reset WT_CURSOR
  | cursor_close WT_CURSOR
  | session_reconfigure WT_SESSION string
  | session_reset WT_SESSION
  | transaction_pinned_range WT_SESSION

text \<open>
  What the engine answers is not decided by the cache, so it is a parameter: the status
  of a call (given the calls made before it), the handle an \<^verbatim>\<open>open_session\<close> or
  \<^verbatim>\<open>open_cursor\<close> stores, the range \<^verbatim>\<open>transaction_pinned_range\<close> stores and the
  \<^verbatim>\<open>uri\<close> member of a cursor. \<^verbatim>\<open>wtRCToStatus\<close> (of wiredtiger_error_util, which is not
  among the sources) is a parameter too.
\<close>

datatype Status = StatusOK | StatusNotOK nat string

record wt_api =
  wt_ret :: "wt_call list \<Rightarrow> wt_call \<Rightarrow> int"
  wt_new_session :: "wt_call list \<Rightarrow> WT_SESSION"
  wt_new_cursor :: "wt_call list \<Rightarrow> wt_call \<Rightarrow> WT_CURSOR"
  wt_pinned_range :: "wt_call list \<Rightarrow> WT_SESSION \<Rightarrow> 64 word"
  wt_cursor_uri :: "WT_CURSOR \<Rightarrow> string"
  wtRCToStatus :: "int \<Rightarrow> Status"

text \<open>
  How a call of the source can end other than by returning: a failed \<^verbatim>\<open>invariant\<close> or
  \<^verbatim>\<open>invariantWTOK\<close> and a \<^verbatim>\<open>LOGV2_FATAL_NOTRACE\<close> terminate the process; \<^verbatim>\<open>uasserted\<close>
  and \<^verbatim>\<open>uassertStatusOK\<close> throw an exception the caller can catch.
\<close>

datatype error =
    InvariantFailure
  | InvariantWTFailure int
  | UassertedStatus Status
  | Uasserted nat Status string "string option"
  | FatalLog nat string "string option" Status

definition is_fatal :: "error \<Rightarrow> bool" where
  "is_fatal e = (case e of
       InvariantFailure \<Rightarrow> True
     | InvariantWTFailure r \<Rightarrow> True
     | UassertedStatus st \<Rightarrow> False
     | Uasserted code st uri config \<Rightarrow> False
     | FatalLog n uri config st \<Rightarrow> True)"

definition ENOENT :: int where
  "ENOENT = 2"

definition EBUSY :: int where
  "EBUSY = 16"

definition CursorNotFound :: nat where
  "CursorNotFound = 43"

definition Date_t_min :: Date_t where
  "Date_t_min = - (2 ^ 63)"

subsection \<open>Data\<close>

record WiredTigerCachedCursor =
  cc_id :: "64 word"
  cc_gen :: "64 word"
  cc_cursor :: WT_CURSOR
  cc_config :: string

text \<open>
  \<^verbatim>\<open>_undoConfigStrings\<close> is an unordered set of strings; a list without duplicates
  gives it one iteration order.
\<close>

record WiredTigerSession =
  epoch :: nat
  session :: WT_SESSION
  cursors :: "WiredTigerCachedCursor list"
  cursorGen :: "64 word"
  cursorsOut :: int
  idleExpireTime :: Date_t
  undoConfigStrings :: "string dlist"

text \<open>
  The cache, with the state of the connection \<^verbatim>\<open>_conn\<close> points to: the calls the engine
  has received so far (\<open>wt_calls\<close>, oldest first). \<open>sessions\<close> is the vector of idle
  sessions, its back being the last element.
\<close>

record WiredTigerSessionCache =
  wt_calls :: "wt_call list"
  shuttingDownWord :: "32 word"
  sessions :: "WiredTigerSession list"
  cache_epoch :: nat

definition kShuttingDownMask :: "32 word" where
  "kShuttingDownMask = push_bit 31 1"

text \<open>An engine call under \<^verbatim>\<open>invariantWTOK\<close>: any status but 0 terminates the process.\<close>

definition invariantWTOK ::
  "wt_api \<Rightarrow> wt_call \<Rightarrow> WiredTigerSessionCache \<Rightarrow> error + WiredTigerSessionCache" where
  "invariantWTOK api call c =
     (if wt_ret api (wt_calls c) call = 0
      then Inr (c\<lparr>wt_calls := wt_calls c @ [call]\<rparr>)
      else Inl (InvariantWTFailure (wt_ret api (wt_calls c) call)))"

subsection \<open>The scope that blocks shutdown\<close>

definition BlockShutdown_enter :: "WiredTigerSessionCache \<Rightarrow> WiredTigerSessionCache" where
  "BlockShutdown_enter c = c\<lparr>shuttingDownWord := shuttingDownWord c + 1\<rparr>"

definition BlockShutdown_exit :: "WiredTigerSessionCache \<Rightarrow> WiredTigerSessionCache" where
  "BlockShutdown_exit c = c\<lparr>shuttingDownWord := shuttingDownWord c - 1\<rparr>"

definition isShuttingDown :: "WiredTigerSessionCache \<Rightarrow> bool" where
  "isShuttingDown c = (shuttingDownWord c AND kShuttingDownMask \<noteq> 0)"

text \<open>The number of scopes in flight: the low 31 bits of the word.\<close>

definition blockingCount :: "WiredTigerSessionCache \<Rightarrow> nat" where
  "blockingCount c = unat (shuttingDownWord c AND NOT kShuttingDownMask)"

subsection \<open>WiredTigerSession: the cursor cache\<close>

fun getCachedCursor_scan ::
  "64 word \<Rightarrow> string \<Rightarrow> WiredTigerCachedCursor list
     \<Rightarrow> (WT_CURSOR \<times> WiredTigerCachedCursor list) option" where
  "getCachedCursor_scan i config [] = None"
| "getCachedCursor_scan i config (e # es) =
     (if cc_id e = i \<and> cc_config e = config then Some (cc_cursor e, es)
      else (case getCachedCursor_scan i config es of
              None \<Rightarrow> None
            | Some (c, es') \<Rightarrow> Some (c, e # es')))"

text \<open>\<^verbatim>\<open>getCachedCursor\<close> returns the cursor (0 for \<^verbatim>\<open>nullptr\<close>) and the session after it.\<close>

definition getCachedCursor ::
  "64 word \<Rightarrow> string \<Rightarrow> WiredTigerSession \<Rightarrow> WT_CURSOR \<times> WiredTigerSession" where
  "getCachedCursor i config s =
     (case getCachedCursor_scan i config (cursors s) of
        Some (c, es) \<Rightarrow> (c, s\<lparr>cursors := es, cursorsOut := cursorsOut s + 1\<rparr>)
      | None \<Rightarrow> (0, s))"

text \<open>
  \<^verbatim>\<open>_openCursor\<close> and \<^verbatim>\<open>getNewCursor\<close>. \<^verbatim>\<open>uassertStatusOK\<close> throws when the status is
  not OK; where it does not, the branch on \<^verbatim>\<open>EBUSY\<close> goes on to the fatal log, as in the
  source.
\<close>

definition openCursor ::
  "wt_api \<Rightarrow> WT_SESSION \<Rightarrow> string \<Rightarrow> string option \<Rightarrow> WiredTigerSessionCache
     \<Rightarrow> error + (WT_CURSOR \<times> WiredTigerSessionCache)" where
  "openCursor api ss uri config c =
     (let call = open_cursor ss uri config;
          ret = wt_ret api (wt_calls c) call;
          c' = c\<lparr>wt_calls := wt_calls c @ [call]\<rparr>
      in if ret = 0 then Inr (wt_new_cursor api (wt_calls c) call, c')
         else (let status = wtRCToStatus api ret;
                   fatal = Inl (FatalLog 50882 uri config status)
               in if ret = EBUSY
                  then (if status = StatusOK then fatal else Inl (UassertedStatus status))
                  else if ret = ENOENT then Inl (Uasserted CursorNotFound status uri config)
                  else fatal))"

definition getNewCursor ::
  "wt_api \<Rightarrow> string \<Rightarrow> string option \<Rightarrow> WiredTigerSessionCache \<times> WiredTigerSession
     \<Rightarrow> error + (WT_CURSOR \<times> WiredTigerSessionCache \<times> WiredTigerSession)" where
  "getNewCursor api uri config cs =
     (case cs of (c, s) \<Rightarrow>
        (case openCursor api (session s) uri config c of
           Inl e \<Rightarrow> Inl e
         | Inr (cursor, c') \<Rightarrow> Inr (cursor, c', s\<lparr>cursorsOut := cursorsOut s + 1\<rparr>)))"

text \<open>The loop at the end of \<^verbatim>\<open>releaseCursor\<close>: cursors are removed from the back.\<close>

function releaseCursor_evict ::
  "wt_api \<Rightarrow> 32 word \<Rightarrow> WiredTigerSessionCache \<times> WiredTigerSession
     \<Rightarrow> error + (WiredTigerSessionCache \<times> WiredTigerSession)" where
  "releaseCursor_evict api cacheSize (c, s) =
     (if cursors s \<noteq> [] \<and> ucast cacheSize < cursorGen s - cc_gen (last (cursors s))
      then (case invariantWTOK api (cursor_close (cc_cursor (last (cursors s)))) c of
              Inl e \<Rightarrow> Inl e
            | Inr c' \<Rightarrow> releaseCursor_evict api cacheSize (c', s\<lparr>cursors := butlast (cursors s)\<rparr>))
      else Inr (c, s))"
  by pat_completeness auto
termination
  by (relation "measure (\<lambda>(api, cacheSize, c, s). length (cursors s))") auto

text \<open>
  \<^verbatim>\<open>gWiredTigerCursorCacheSize\<close> is read at each release, so its value is an argument
  (\<open>tunable\<close>, a 32-bit signed integer). \<^verbatim>\<open>abs\<close> of the least integer is taken as two's
  complement gives it.
\<close>

definition cacheSizeOf :: "32 word \<Rightarrow> 32 word" where
  "cacheSizeOf tunable = word_of_int \<bar>sint tunable\<bar>"

definition releaseCursor ::
  "wt_api \<Rightarrow> 32 word \<Rightarrow> 64 word \<Rightarrow> WT_CURSOR \<Rightarrow> string
     \<Rightarrow> WiredTigerSessionCache \<times> WiredTigerSession
     \<Rightarrow> error + (WiredTigerSessionCache \<times> WiredTigerSession)" where
  "releaseCursor api tunable i cursor config cs =
     (case cs of (c0, s) \<Rightarrow>
        (let c = BlockShutdown_enter c0
         in if isShuttingDown c then Inr (BlockShutdown_exit c, s)
            else if session s = 0 then Inl InvariantFailure
            else if cursor = 0 then Inl InvariantFailure
            else (case invariantWTOK api (cursor_reset cursor) c of
                    Inl e \<Rightarrow> Inl e
                  | Inr c' \<Rightarrow>
                     (case releaseCursor_evict api (cacheSizeOf tunable)
                             (c', s\<lparr>cursorsOut := cursorsOut s - 1,
                                    cursors := \<lparr>cc_id = i, cc_gen = cursorGen s,
                                                cc_cursor = cursor, cc_config = config\<rparr>
                                               # cursors s,
                                    cursorGen := cursorGen s + 1\<rparr>) of
                        Inl e \<Rightarrow> Inl e
                      | Inr (c'', s') \<Rightarrow> Inr (BlockShutdown_exit c'', s')))))"


text \<open>The loop of \<^verbatim>\<open>WiredTigerSession::closeAllCursors\<close> over the cursor cache.\<close>

fun closeAllCursors_loop ::
  "wt_api \<Rightarrow> bool \<Rightarrow> string \<Rightarrow> WiredTigerCachedCursor list \<Rightarrow> WiredTigerSessionCache
     \<Rightarrow> error + (WiredTigerSessionCache \<times> WiredTigerCachedCursor list)" where
  "closeAllCursors_loop api all uri [] c = Inr (c, [])"
| "closeAllCursors_loop api all uri (e # es) c =
     (if cc_cursor e \<noteq> 0 \<and> (all \<or> uri = wt_cursor_uri api (cc_cursor e))
      then (case invariantWTOK api (cursor_close (cc_cursor e)) c of
              Inl err \<Rightarrow> Inl err
            | Inr c' \<Rightarrow> closeAllCursors_loop api all uri es c')
      else (case closeAllCursors_loop api all uri es c of
              Inl err \<Rightarrow> Inl err
            | Inr (c', es') \<Rightarrow> Inr (c', e # es')))"

definition WiredTigerSession_closeAllCursors ::
  "wt_api \<Rightarrow> string \<Rightarrow> WiredTigerSessionCache \<times> WiredTigerSession
     \<Rightarrow> error + (WiredTigerSessionCache \<times> WiredTigerSession)" where
  "WiredTigerSession_closeAllCursors api uri cs =
     (case cs of (c, s) \<Rightarrow>
        if session s = 0 then Inl InvariantFailure
        else (case closeAllCursors_loop api (uri = []) uri (cursors s) c of
                Inl e \<Rightarrow> Inl e
              | Inr (c', es) \<Rightarrow> Inr (c', s\<lparr>cursors := es\<rparr>)))"

subsection \<open>WiredTigerSession: session configuration\<close>

definition reconfigure ::
  "wt_api \<Rightarrow> string \<Rightarrow> string \<Rightarrow> WiredTigerSessionCache \<times> WiredTigerSession
     \<Rightarrow> error + (WiredTigerSessionCache \<times> WiredTigerSession)" where
  "reconfigure api newConfig undoConfig cs =
     (case cs of (c, s) \<Rightarrow>
        (let s' = (if newConfig = undoConfig
                   then s\<lparr>undoConfigStrings := Dlist.remove undoConfig (undoConfigStrings s)\<rparr>
                   else s\<lparr>undoConfigStrings := Dlist.insert undoConfig (undoConfigStrings s)\<rparr>)
         in case invariantWTOK api (session_reconfigure (session s) newConfig) c of
              Inl e \<Rightarrow> Inl e
            | Inr c' \<Rightarrow> Inr (c', s')))"

fun invariantWTOK_each ::
  "wt_api \<Rightarrow> wt_call list \<Rightarrow> WiredTigerSessionCache \<Rightarrow> error + WiredTigerSessionCache" where
  "invariantWTOK_each api [] c = Inr c"
| "invariantWTOK_each api (call # calls) c =
     (case invariantWTOK api call c of
        Inl e \<Rightarrow> Inl e
      | Inr c' \<Rightarrow> invariantWTOK_each api calls c')"

definition resetSessionConfiguration ::
  "wt_api \<Rightarrow> WiredTigerSessionCache \<times> WiredTigerSession
     \<Rightarrow> error + (WiredTigerSessionCache \<times> WiredTigerSession)" where
  "resetSessionConfiguration api cs =
     (case cs of (c, s) \<Rightarrow>
        (case invariantWTOK_each api
                (map (session_reconfigure (session s)) (list_of_dlist (undoConfigStrings s))) c of
           Inl e \<Rightarrow> Inl e
         | Inr c' \<Rightarrow> Inr (c', s\<lparr>undoConfigStrings := Dlist.empty\<rparr>)))"

subsection \<open>WiredTigerSessionCache\<close>

text \<open>The constructor and the destructor of a session.\<close>

definition new_WiredTigerSession ::
  "wt_api \<Rightarrow> nat \<Rightarrow> WiredTigerSessionCache
     \<Rightarrow> error + (WiredTigerSession \<times> WiredTigerSessionCache)" where
  "new_WiredTigerSession api e c =
     (case invariantWTOK api open_session c of
        Inl err \<Rightarrow> Inl err
      | Inr c' \<Rightarrow>
          Inr (\<lparr>epoch = e, session = wt_new_session api (wt_calls c), cursors = [],
                cursorGen = 0, cursorsOut = 0, idleExpireTime = Date_t_min,
                undoConfigStrings = Dlist.empty\<rparr>, c'))"

definition delete_WiredTigerSession ::
  "wt_api \<Rightarrow> WiredTigerSession \<Rightarrow> WiredTigerSessionCache \<Rightarrow> error + WiredTigerSessionCache" where
  "delete_WiredTigerSession api s c =
     (if session s \<noteq> 0 then invariantWTOK api (session_close (session s)) c else Inr c)"

fun delete_each ::
  "wt_api \<Rightarrow> WiredTigerSession list \<Rightarrow> WiredTigerSessionCache
     \<Rightarrow> error + WiredTigerSessionCache" where
  "delete_each api [] c = Inr c"
| "delete_each api (s # ss) c =
     (case delete_WiredTigerSession api s c of
        Inl e \<Rightarrow> Inl e
      | Inr c' \<Rightarrow> delete_each api ss c')"

definition closeAll ::
  "wt_api \<Rightarrow> WiredTigerSessionCache \<Rightarrow> error + WiredTigerSessionCache" where
  "closeAll api c =
     (let swap = sessions c
      in delete_each api swap (c\<lparr>cache_epoch := cache_epoch c + 1, sessions := []\<rparr>))"

text \<open>
  \<^verbatim>\<open>shuttingDown\<close> polls the word until no scope is in flight. The scopes belong to other
  threads, so what they do between two polls is an argument: a list, for each poll that
  finds the word not yet equal to the mask, of the scopes entered and left before the next
  one. When the list ends with scopes still in flight the call has not returned: \<open>None\<close>.
\<close>

datatype scope_event = ScopeEnter | ScopeExit

fun scope_step :: "WiredTigerSessionCache \<Rightarrow> scope_event \<Rightarrow> WiredTigerSessionCache" where
  "scope_step c ScopeEnter = BlockShutdown_enter c"
| "scope_step c ScopeExit = BlockShutdown_exit c"

fun shuttingDown_spin ::
  "scope_event list list \<Rightarrow> WiredTigerSessionCache \<Rightarrow> WiredTigerSessionCache option" where
  "shuttingDown_spin [] c = (if shuttingDownWord c \<noteq> kShuttingDownMask then None else Some c)"
| "shuttingDown_spin (evs # sched) c =
     (if shuttingDownWord c \<noteq> kShuttingDownMask
      then shuttingDown_spin sched (foldl scope_step c evs)
      else Some c)"

definition shuttingDown ::
  "wt_api \<Rightarrow> scope_event list list \<Rightarrow> WiredTigerSessionCache
     \<Rightarrow> (error + WiredTigerSessionCache) option" where
  "shuttingDown api sched c =
     (let old = shuttingDownWord c;
          c' = c\<lparr>shuttingDownWord := old OR kShuttingDownMask\<rparr>
      in if old AND kShuttingDownMask \<noteq> 0 then Some (Inr c')
         else (case shuttingDown_spin sched c' of
                 None \<Rightarrow> None
               | Some c'' \<Rightarrow> Some (closeAll api c'')))"

definition restart :: "WiredTigerSessionCache \<Rightarrow> WiredTigerSessionCache" where
  "restart c = c\<lparr>shuttingDownWord := shuttingDownWord c AND NOT kShuttingDownMask\<rparr>"




text \<open>
  The scan of \<^verbatim>\<open>closeExpiredIdleSessions\<close> over the pool: the sessions it keeps and the
  sessions it moves to \<^verbatim>\<open>sessionsToClose\<close>, both in the order of the pool.
\<close>

fun closeExpiredIdleSessions_scan ::
  "Date_t \<Rightarrow> WiredTigerSession list
     \<Rightarrow> error + (WiredTigerSession list \<times> WiredTigerSession list)" where
  "closeExpiredIdleSessions_scan cutoffTime [] = Inr ([], [])"
| "closeExpiredIdleSessions_scan cutoffTime (s # ss) =
     (if idleExpireTime s = Date_t_min then Inl InvariantFailure
      else (case closeExpiredIdleSessions_scan cutoffTime ss of
              Inl e \<Rightarrow> Inl e
            | Inr (kept, sessionsToClose) \<Rightarrow>
                if idleExpireTime s < cutoffTime then Inr (kept, s # sessionsToClose)
                else Inr (s # kept, sessionsToClose)))"

text \<open>\<open>now\<close> is what \<^verbatim>\<open>_clockSource->now()\<close> returns at the call.\<close>

definition closeExpiredIdleSessions ::
  "wt_api \<Rightarrow> Date_t \<Rightarrow> int \<Rightarrow> WiredTigerSessionCache \<Rightarrow> error + WiredTigerSessionCache" where
  "closeExpiredIdleSessions api now idleTimeMillis c =
     (if idleTimeMillis \<le> 0 then Inr c
      else (let cutoffTime = now - idleTimeMillis
            in case closeExpiredIdleSessions_scan cutoffTime (sessions c) of
                 Inl e \<Rightarrow> Inl e
               | Inr (kept, sessionsToClose) \<Rightarrow>
                   delete_each api sessionsToClose (c\<lparr>sessions := kept\<rparr>)))"

definition getSession ::
  "wt_api \<Rightarrow> WiredTigerSessionCache \<Rightarrow> error + (WiredTigerSession \<times> WiredTigerSessionCache)" where
  "getSession api c =
     (if shuttingDownWord c AND kShuttingDownMask \<noteq> 0 then Inl InvariantFailure
      else if sessions c \<noteq> []
      then Inr ((last (sessions c))\<lparr>idleExpireTime := Date_t_min\<rparr>,
                c\<lparr>sessions := butlast (sessions c)\<rparr>)
      else new_WiredTigerSession api (cache_epoch c) c)"

text \<open>
  \<^verbatim>\<open>releaseSession\<close>. In a run without other threads the epoch read before the lock and
  the one read under it are the same. The flush of the size storer it asks the engine
  object for at the end is outside the cache.
\<close>

definition releaseSession ::
  "wt_api \<Rightarrow> 32 word \<Rightarrow> Date_t \<Rightarrow> WiredTigerSession \<Rightarrow> WiredTigerSessionCache
     \<Rightarrow> error + WiredTigerSessionCache" where
  "releaseSession api tunable now s c0 =
     (if \<not> (cursorsOut s = 0 \<or> isShuttingDown c0) then Inl InvariantFailure
      else (let c = BlockShutdown_enter c0
            in if isShuttingDown c then Inr (BlockShutdown_exit c)
               else (case invariantWTOK api (transaction_pinned_range (session s)) c of
                  Inl e \<Rightarrow> Inl e
                | Inr c1 \<Rightarrow>
                   if wt_pinned_range api (wt_calls c) (session s) \<noteq> 0 then Inl InvariantFailure
                   else (case (if sint tunable < 0
                               then WiredTigerSession_closeAllCursors api [] (c1, s)
                               else Inr (c1, s)) of
                      Inl e \<Rightarrow> Inl e
                    | Inr (c2, s2) \<Rightarrow>
                       (case resetSessionConfiguration api (c2, s2) of
                          Inl e \<Rightarrow> Inl e
                        | Inr (c3, s3) \<Rightarrow>
                           (case invariantWTOK api (session_reset (session s)) c3 of
                              Inl e \<Rightarrow> Inl e
                            | Inr c4 \<Rightarrow>
                               (let currentEpoch = cache_epoch c4;
                                    s4 = s3\<lparr>idleExpireTime := now\<rparr>
                                in if epoch s4 = currentEpoch
                                   then (if epoch s4 = cache_epoch c4
                                         then Inr (BlockShutdown_exit
                                                 (c4\<lparr>sessions := sessions c4 @ [s4]\<rparr>))
                                         else (case delete_WiredTigerSession api s4 c4 of
                                                 Inl e \<Rightarrow> Inl e
                                               | Inr c5 \<Rightarrow> Inr (BlockShutdown_exit c5)))
                                   else if \<not> epoch s4 < currentEpoch then Inl InvariantFailure
                                   else (case delete_WiredTigerSession api s4 c4 of
                                           Inl e \<Rightarrow> Inl e
                                         | Inr c5 \<Rightarrow> Inr (BlockShutdown_exit c5)))))))))"

definition isEngineCachingCursors :: "32 word \<Rightarrow> bool" where
  "isEngineCachingCursors tunable = (sint tunable \<le> 0)"

text \<open>
  The constructor of the cache: \<^verbatim>\<open>_shuttingDown{0}\<close>, an empty pool, and the epoch an
  \<^verbatim>\<open>AtomicWord\<close> starts with. (It also compiles configurations on the connection, which
  touches nothing the cache keeps.)
\<close>

definition new_WiredTigerSessionCache :: WiredTigerSessionCache where
  "new_WiredTigerSessionCache =
     \<lparr>wt_calls = [], shuttingDownWord = 0, sessions = [], cache_epoch = 0\<rparr>"

section \<open>Notions the statements use\<close>

text \<open>An engine whose every call returns status 0.\<close>

definition wt_ok :: "wt_api \<Rightarrow> bool" where
  "wt_ok api = (\<forall>calls call. wt_ret api calls call = 0)"

text \<open>
  Sequences of scope entries and exits, started with \<open>n\<close> scopes in flight, in which every
  exit leaves a scope that is open and the 31 bits of the count can hold every count
  reached; and the count at their end.
\<close>

fun scopes_in_range :: "nat \<Rightarrow> scope_event list \<Rightarrow> bool" where
  "scopes_in_range n [] = True"
| "scopes_in_range n (ScopeEnter # evs) = (n + 1 < 2147483648 \<and> scopes_in_range (n + 1) evs)"
| "scopes_in_range n (ScopeExit # evs) = (0 < n \<and> scopes_in_range (n - 1) evs)"

fun scopes_after :: "nat \<Rightarrow> scope_event list \<Rightarrow> nat" where
  "scopes_after n [] = n"
| "scopes_after n (ScopeEnter # evs) = scopes_after (n + 1) evs"
| "scopes_after n (ScopeExit # evs) = scopes_after (n - 1) evs"

text \<open>
  The age of a cached cursor is what the loop of \<^verbatim>\<open>releaseCursor\<close> compares with the cache
  size: the current generation minus the cursor's, as the unsigned 64-bit subtraction gives
  it. A cursor cache is well formed when the ages grow strictly from the front to the back,
  start at 1 or more, and fit 32 bits.
\<close>

definition cursorAge :: "64 word \<Rightarrow> WiredTigerCachedCursor \<Rightarrow> nat" where
  "cursorAge g e = unat (g - cc_gen e)"

definition cursorCache_wf :: "WiredTigerSession \<Rightarrow> bool" where
  "cursorCache_wf s =
     (sorted_wrt (<) (map (cursorAge (cursorGen s)) (cursors s)) \<and>
      list_all (\<lambda>e. 1 \<le> cursorAge (cursorGen s) e \<and> cursorAge (cursorGen s) e < 4294967296)
        (cursors s))"

text \<open>
  The session after the first half of \<^verbatim>\<open>releaseCursor\<close> (the count of cursors out, the
  push to the front, the generation), and the entries its loop then removes (in the order it
  closes them) and keeps.
\<close>

definition pushed ::
  "64 word \<Rightarrow> WT_CURSOR \<Rightarrow> string \<Rightarrow> WiredTigerSession \<Rightarrow> WiredTigerSession" where
  "pushed i cursor config s =
     s\<lparr>cursorsOut := cursorsOut s - 1,
       cursors := \<lparr>cc_id = i, cc_gen = cursorGen s, cc_cursor = cursor, cc_config = config\<rparr>
                  # cursors s,
       cursorGen := cursorGen s + 1\<rparr>"

definition evicted :: "32 word \<Rightarrow> WiredTigerSession \<Rightarrow> WiredTigerCachedCursor list" where
  "evicted cacheSize s =
     takeWhile (\<lambda>e. unat cacheSize < cursorAge (cursorGen s) e) (rev (cursors s))"

definition retained :: "32 word \<Rightarrow> WiredTigerSession \<Rightarrow> WiredTigerCachedCursor list" where
  "retained cacheSize s =
     rev (dropWhile (\<lambda>e. unat cacheSize < cursorAge (cursorGen s) e) (rev (cursors s)))"

text \<open>A run of \<^verbatim>\<open>releaseCursor\<close> calls on one session, with one value of the tunable.\<close>

fun releaseCursors ::
  "wt_api \<Rightarrow> 32 word \<Rightarrow> (64 word \<times> WT_CURSOR \<times> string) list
     \<Rightarrow> WiredTigerSessionCache \<times> WiredTigerSession
     \<Rightarrow> error + (WiredTigerSessionCache \<times> WiredTigerSession)" where
  "releaseCursors api tunable [] cs = Inr cs"
| "releaseCursors api tunable ((i, cursor, config) # rels) cs =
     (case releaseCursor api tunable i cursor config cs of
        Inl e \<Rightarrow> Inl e
      | Inr cs' \<Rightarrow> releaseCursors api tunable rels cs')"

text \<open>
  Concrete inputs for the examples: an engine whose calls all succeed, and a session as
  \<^verbatim>\<open>getSession\<close> constructs it on a new cache, with one cursor out.
\<close>

definition example_engine :: wt_api where
  "example_engine =
     \<lparr>wt_ret = (\<lambda>calls call. 0),
      wt_new_session = (\<lambda>calls. Suc (length calls)),
      wt_new_cursor = (\<lambda>calls call. Suc (length calls)),
      wt_pinned_range = (\<lambda>calls ss. 0),
      wt_cursor_uri = (\<lambda>cursor. []),
      wtRCToStatus = (\<lambda>ret. if ret = 0 then StatusOK else StatusNotOK 8 [])\<rparr>"

definition example_session :: WiredTigerSession where
  "example_session =
     \<lparr>epoch = 0, session = 1, cursors = [], cursorGen = 0, cursorsOut = 1,
      idleExpireTime = Date_t_min, undoConfigStrings = Dlist.empty\<rparr>"

text \<open>
  The undo set of a session; a run of \<^verbatim>\<open>reconfigure\<close> calls; and what the specification
  says such a run does to the undo set: each pair records its undo string, unless the new
  configuration is the undo string, which is then removed.
\<close>

definition undoSet :: "WiredTigerSession \<Rightarrow> string set" where
  "undoSet s = set (list_of_dlist (undoConfigStrings s))"

fun reconfigures ::
  "wt_api \<Rightarrow> (string \<times> string) list \<Rightarrow> WiredTigerSessionCache \<times> WiredTigerSession
     \<Rightarrow> error + (WiredTigerSessionCache \<times> WiredTigerSession)" where
  "reconfigures api [] cs = Inr cs"
| "reconfigures api ((newConfig, undoConfig) # pairs) cs =
     (case reconfigure api newConfig undoConfig cs of
        Inl e \<Rightarrow> Inl e
      | Inr cs' \<Rightarrow> reconfigures api pairs cs')"

fun undoSet_after :: "(string \<times> string) list \<Rightarrow> string set \<Rightarrow> string set" where
  "undoSet_after [] U = U"
| "undoSet_after ((newConfig, undoConfig) # pairs) U =
     undoSet_after pairs (if newConfig = undoConfig then U - {undoConfig} else insert undoConfig U)"

text \<open>
  Two caches that differ at most in the calls the engine has received; and the calls the
  destructors of a list of sessions make on the engine.
\<close>

definition same_cache :: "WiredTigerSessionCache \<Rightarrow> WiredTigerSessionCache \<Rightarrow> bool" where
  "same_cache c c' =
     (shuttingDownWord c' = shuttingDownWord c \<and> sessions c' = sessions c \<and>
      cache_epoch c' = cache_epoch c)"

definition close_calls :: "WiredTigerSession list \<Rightarrow> wt_call list" where
  "close_calls ss = map (\<lambda>s. session_close (session s)) (filter (\<lambda>s. session s \<noteq> 0) ss)"






section \<open>Properties\<close>

declare releaseCursor_evict.simps [simp del]

subsection \<open>The shutdown word\<close>

lemma odd_div_iff_le:
  fixes u m :: nat
  assumes "u < 2 * m"
  shows "odd (u div m) = (m \<le> u)"
proof (cases "m \<le> u")
  case True
  then have "u div m = 1"
    using assms by (simp add: div_nat_eqI)
  then show ?thesis using True by simp
next
  case False
  then show ?thesis by simp
qed

lemma isShuttingDown_word_iff:
  "(w AND kShuttingDownMask \<noteq> 0) = (2147483648 \<le> unat (w::32 word))"
proof -
  have u: "unat w < 2 * 2147483648" using unsigned_less [of w] by simp
  have "(w AND kShuttingDownMask \<noteq> 0) = bit w 31"
    unfolding kShuttingDownMask_def push_bit_of_1 by (simp only: and_exp_eq_0_iff_not_bit simp_thms)
  also have "\<dots> = bit (unat w) 31" by (simp add: bit_unsigned_iff)
  also have "\<dots> = odd (unat w div 2147483648)" by (simp add: bit_iff_odd)
  also have "\<dots> = (2147483648 \<le> unat w)" by (rule odd_div_iff_le [OF u])
  finally show ?thesis .
qed

lemma not_mask: "NOT kShuttingDownMask = mask 31"
  by (simp add: kShuttingDownMask_def mask_eq_exp_minus_1)

lemma blockingCount_word: "unat ((w::32 word) AND NOT kShuttingDownMask) = unat w mod 2147483648"
proof -
  have "w AND NOT kShuttingDownMask = take_bit 31 w"
    by (simp only: not_mask take_bit_eq_mask)
  then show ?thesis by (simp add: take_bit_eq_mod unat_mod)
qed

lemma unat_inc: "unat ((w::32 word) + 1) = (unat w + 1) mod 4294967296"
  by (simp add: unat_word_ariths)

lemma mod_half_cases:
  fixes u m :: nat
  assumes "u < 2 * m"
  shows "u mod m = (if m \<le> u then u - m else u)"
proof (cases "m \<le> u")
  case True
  then have "u mod m = (u - m) mod m" by (rule le_mod_geq)
  also have "\<dots> = u - m" using assms True by simp
  finally show ?thesis using True by simp
next
  case False
  then show ?thesis by simp
qed

lemma enter_arith:
  fixes u m :: nat
  assumes "u < 2 * m" and "u mod m + 1 < m"
  shows "(m \<le> (u + 1) mod (2 * m)) = (m \<le> u)"
    and "((u + 1) mod (2 * m)) mod m = u mod m + 1"
proof -
  have um: "u mod m = (if m \<le> u then u - m else u)" by (rule mod_half_cases [OF assms(1)])
  have lt: "u + 1 < 2 * m" using assms um by (simp split: if_splits)
  then have e: "(u + 1) mod (2 * m) = u + 1" by simp
  have um1: "(u + 1) mod m = (if m \<le> u + 1 then u + 1 - m else u + 1)"
    by (rule mod_half_cases [OF lt])
  show "(m \<le> (u + 1) mod (2 * m)) = (m \<le> u)"
    unfolding e using assms(2) um by (simp split: if_splits)
  show "((u + 1) mod (2 * m)) mod m = u mod m + 1"
    unfolding e um1 using assms(2) um by (simp split: if_splits)
qed

lemma exit_arith:
  fixes u m :: nat
  assumes "u < 2 * m" and "0 < u mod m"
  shows "(m \<le> u - 1) = (m \<le> u)"
    and "(u - 1) mod m = u mod m - 1"
proof -
  have um: "u mod m = (if m \<le> u then u - m else u)" by (rule mod_half_cases [OF assms(1)])
  have lt: "u - 1 < 2 * m" using assms(1) by simp
  have um1: "(u - 1) mod m = (if m \<le> u - 1 then u - 1 - m else u - 1)"
    by (rule mod_half_cases [OF lt])
  show "(m \<le> u - 1) = (m \<le> u)"
    using assms(2) um by (simp split: if_splits)
  show "(u - 1) mod m = u mod m - 1"
    unfolding um1 using assms(2) um by (simp split: if_splits)
qed

lemma enter_keeps_bit:
  fixes w :: "32 word"
  assumes "unat (w AND NOT kShuttingDownMask) + 1 < 2147483648"
  shows "((w + 1) AND kShuttingDownMask \<noteq> 0) = (w AND kShuttingDownMask \<noteq> 0)"
    and "unat ((w + 1) AND NOT kShuttingDownMask) = unat (w AND NOT kShuttingDownMask) + 1"
proof -
  have u: "unat w < 2 * 2147483648" using unsigned_less [of w] by simp
  from assms have m: "unat w mod 2147483648 + 1 < 2147483648" by (simp add: blockingCount_word)
  show "((w + 1) AND kShuttingDownMask \<noteq> 0) = (w AND kShuttingDownMask \<noteq> 0)"
    unfolding isShuttingDown_word_iff unat_inc using enter_arith(1) [OF u m] by simp
  show "unat ((w + 1) AND NOT kShuttingDownMask) = unat (w AND NOT kShuttingDownMask) + 1"
    unfolding blockingCount_word unat_inc using enter_arith(2) [OF u m] by simp
qed

lemma exit_keeps_bit:
  fixes w :: "32 word"
  assumes "0 < unat (w AND NOT kShuttingDownMask)"
  shows "((w - 1) AND kShuttingDownMask \<noteq> 0) = (w AND kShuttingDownMask \<noteq> 0)"
    and "unat ((w - 1) AND NOT kShuttingDownMask) = unat (w AND NOT kShuttingDownMask) - 1"
proof -
  have u: "unat w < 2 * 2147483648" using unsigned_less [of w] by simp
  from assms have m: "0 < unat w mod 2147483648" by (simp add: blockingCount_word)
  then have "unat w \<noteq> 0" by (cases "unat w = 0") simp_all
  then have "w \<noteq> 0" by (simp add: unat_eq_0)
  then have d: "unat (w - 1) = unat w - 1" by (rule unat_minus_one)
  show "((w - 1) AND kShuttingDownMask \<noteq> 0) = (w AND kShuttingDownMask \<noteq> 0)"
    unfolding isShuttingDown_word_iff d using exit_arith(1) [OF u m] by simp
  show "unat ((w - 1) AND NOT kShuttingDownMask) = unat (w AND NOT kShuttingDownMask) - 1"
    unfolding blockingCount_word d using exit_arith(2) [OF u m] by simp
qed

lemma enter_exit [simp]: "BlockShutdown_exit (BlockShutdown_enter c) = c"
  by (simp add: BlockShutdown_exit_def BlockShutdown_enter_def)

lemma exit_calls_enter [simp]:
  "BlockShutdown_exit ((BlockShutdown_enter c)\<lparr>wt_calls := cs\<rparr>) = c\<lparr>wt_calls := cs\<rparr>"
  by (simp add: BlockShutdown_exit_def BlockShutdown_enter_def)

lemma enter_fields [simp]:
  "wt_calls (BlockShutdown_enter c) = wt_calls c"
  "sessions (BlockShutdown_enter c) = sessions c"
  "cache_epoch (BlockShutdown_enter c) = cache_epoch c"
  by (simp_all add: BlockShutdown_enter_def)

lemma exit_fields [simp]:
  "wt_calls (BlockShutdown_exit c) = wt_calls c"
  "sessions (BlockShutdown_exit c) = sessions c"
  "cache_epoch (BlockShutdown_exit c) = cache_epoch c"
  by (simp_all add: BlockShutdown_exit_def)

lemma isShuttingDown_enter:
  "blockingCount c + 1 < 2147483648 \<Longrightarrow> isShuttingDown (BlockShutdown_enter c) = isShuttingDown c"
  by (simp add: isShuttingDown_def BlockShutdown_enter_def blockingCount_def enter_keeps_bit(1))

lemma isShuttingDown_exit:
  "0 < blockingCount c \<Longrightarrow> isShuttingDown (BlockShutdown_exit c) = isShuttingDown c"
  by (simp add: isShuttingDown_def BlockShutdown_exit_def blockingCount_def exit_keeps_bit(1))

lemma blockingCount_enter:
  "blockingCount c + 1 < 2147483648 \<Longrightarrow> blockingCount (BlockShutdown_enter c) = blockingCount c + 1"
  by (simp add: BlockShutdown_enter_def blockingCount_def enter_keeps_bit(2))

lemma blockingCount_exit:
  "0 < blockingCount c \<Longrightarrow> blockingCount (BlockShutdown_exit c) = blockingCount c - 1"
  by (simp add: BlockShutdown_exit_def blockingCount_def exit_keeps_bit(2))

lemma scopes_in_range_run:
  "scopes_in_range (blockingCount c) evs \<Longrightarrow>
     isShuttingDown (foldl scope_step c evs) = isShuttingDown c \<and>
     blockingCount (foldl scope_step c evs) = scopes_after (blockingCount c) evs"
proof (induction evs arbitrary: c)
  case Nil
  show ?case by simp
next
  case (Cons ev evs)
  show ?case
  proof (cases ev)
    case ScopeEnter
    with Cons.prems have r: "blockingCount c + 1 < 2147483648"
      and rest: "scopes_in_range (blockingCount c + 1) evs" by simp_all
    from rest have "scopes_in_range (blockingCount (BlockShutdown_enter c)) evs"
      by (simp add: blockingCount_enter [OF r])
    from Cons.IH [OF this] show ?thesis
      by (simp add: ScopeEnter blockingCount_enter [OF r] isShuttingDown_enter [OF r])
  next
    case ScopeExit
    with Cons.prems have r: "0 < blockingCount c"
      and rest: "scopes_in_range (blockingCount c - 1) evs" by simp_all
    from rest have "scopes_in_range (blockingCount (BlockShutdown_exit c)) evs"
      by (simp add: blockingCount_exit [OF r])
    from Cons.IH [OF this] show ?thesis
      by (simp add: ScopeExit blockingCount_exit [OF r] isShuttingDown_exit [OF r])
  qed
qed

lemma scopes_in_range_take: "scopes_in_range n evs \<Longrightarrow> scopes_in_range n (take k evs)"
proof (induction n evs arbitrary: k rule: scopes_in_range.induct)
  case (1 n)
  show ?case by simp
next
  case (2 n evs)
  then show ?case by (cases k) simp_all
next
  case (3 n evs)
  then show ?case by (cases k) simp_all
qed

text \<open>
  C9, as the code has it. The low 31 bits are a plain count, with no saturation: in every
  sequence of scope entries and exits in which each exit leaves an open scope and fewer
  than \<open>2 ^ 31\<close> scopes are in flight at any time, at every point of the sequence the top
  bit is what it was at the start and the low bits hold the number of scopes in flight.
\<close>

theorem BlockShutdown_count_in_range:
  assumes "scopes_in_range (blockingCount c) evs"
  shows "isShuttingDown (foldl scope_step c (take k evs)) = isShuttingDown c \<and>
         blockingCount (foldl scope_step c (take k evs)) = scopes_after (blockingCount c) (take k evs)"
  by (rule scopes_in_range_run [OF scopes_in_range_take [OF assms]])

theorem BlockShutdown_count_in_range_witness:
  "scopes_in_range (blockingCount new_WiredTigerSessionCache) [ScopeEnter, ScopeEnter, ScopeExit] \<and>
   \<not> isShuttingDown (foldl scope_step new_WiredTigerSessionCache (take 2 [ScopeEnter, ScopeEnter, ScopeExit])) \<and>
   blockingCount (foldl scope_step new_WiredTigerSessionCache (take 2 [ScopeEnter, ScopeEnter, ScopeExit])) = 2"
proof -
  have b: "blockingCount new_WiredTigerSessionCache = 0"
    by (simp add: blockingCount_def new_WiredTigerSessionCache_def)
  have h: "scopes_in_range (blockingCount new_WiredTigerSessionCache) [ScopeEnter, ScopeEnter, ScopeExit]"
    by (simp add: b)
  have n: "\<not> isShuttingDown new_WiredTigerSessionCache"
    by (simp add: isShuttingDown_def new_WiredTigerSessionCache_def)
  from BlockShutdown_count_in_range [OF h, of 2] h n show ?thesis
    by (simp add: b)
qed


text \<open>
  Without the bound the count does overflow into the top bit: \<open>2 ^ 31\<close> scopes entered on
  a new cache, with no call of \<^verbatim>\<open>shuttingDown\<close>, leave the shutdown bit set and the count
  at 0.
\<close>

lemma foldl_enter_replicate:
  "shuttingDownWord (foldl scope_step c (replicate n ScopeEnter)) = shuttingDownWord c + of_nat n"
  by (induction n arbitrary: c) (simp_all add: BlockShutdown_enter_def)

theorem BlockShutdown_count_overflow:
  "\<not> isShuttingDown new_WiredTigerSessionCache \<and>
   isShuttingDown (foldl scope_step new_WiredTigerSessionCache (replicate 2147483648 ScopeEnter)) \<and>
   blockingCount (foldl scope_step new_WiredTigerSessionCache (replicate 2147483648 ScopeEnter)) = 0"
  by (simp add: isShuttingDown_def blockingCount_def foldl_enter_replicate
      new_WiredTigerSessionCache_def kShuttingDownMask_def)

subsection \<open>The cursor cache of a session\<close>

lemma invariantWTOK_ok [simp]:
  "wt_ok api \<Longrightarrow> invariantWTOK api call c = Inr (c\<lparr>wt_calls := wt_calls c @ [call]\<rparr>)"
  by (simp add: invariantWTOK_def wt_ok_def)

lemma wt_ok_example_engine: "wt_ok example_engine"
  by (simp add: wt_ok_def example_engine_def)

lemma unat_ucast_32_64: "unat (ucast (x :: 32 word) :: 64 word) = unat x"
proof -
  have "unat x < 2 ^ 32" using unsigned_less [of x] by simp
  then have "unat x < (2 :: nat) ^ 64" by simp
  then show ?thesis by (simp add: unsigned_ucast_eq take_bit_nat_eq_self)
qed

lemma evict_less_iff:
  "(ucast (cacheSize :: 32 word) < (g :: 64 word) - cc_gen e) = (unat cacheSize < cursorAge g e)"
  by (simp add: word_less_nat_alt cursorAge_def unat_ucast_32_64)

lemma releaseCursor_evict_ok:
  assumes "wt_ok api"
  shows "releaseCursor_evict api cacheSize cs =
     Inr ((fst cs)\<lparr>wt_calls := wt_calls (fst cs) @
               map (\<lambda>e. cursor_close (cc_cursor e)) (evicted cacheSize (snd cs))\<rparr>,
          (snd cs)\<lparr>cursors := retained cacheSize (snd cs)\<rparr>)"
  using assms
proof (induction api cacheSize cs rule: releaseCursor_evict.induct)
  case (1 api cacheSize c s)
  show ?case
  proof (cases "cursors s \<noteq> [] \<and> ucast cacheSize < cursorGen s - cc_gen (last (cursors s))")
    case True
    then obtain xs x where xs: "cursors s = xs @ [x]"
      by (metis rev_exhaust)
    from True xs have lt: "unat cacheSize < cursorAge (cursorGen s) x"
      by (simp add: evict_less_iff)
    have ih: "releaseCursor_evict api cacheSize
          (c\<lparr>wt_calls := wt_calls c @ [cursor_close (cc_cursor x)]\<rparr>, s\<lparr>cursors := xs\<rparr>) =
        Inr (c\<lparr>wt_calls := wt_calls c @ [cursor_close (cc_cursor x)] @
                 map (\<lambda>e. cursor_close (cc_cursor e)) (evicted cacheSize (s\<lparr>cursors := xs\<rparr>))\<rparr>,
             s\<lparr>cursors := retained cacheSize (s\<lparr>cursors := xs\<rparr>)\<rparr>)"
      using "1.IH" [OF True, of "c\<lparr>wt_calls := wt_calls c @ [cursor_close (cc_cursor x)]\<rparr>"] "1.prems" xs
      by simp
    show ?thesis
      using True lt xs ih "1.prems"
      by (subst releaseCursor_evict.simps) (simp add: evicted_def retained_def)
  next
    case False
    then have "evicted cacheSize s = [] \<and> retained cacheSize s = cursors s"
      by (cases "cursors s" rule: rev_cases) (auto simp: evicted_def retained_def evict_less_iff)
    then show ?thesis using False
      by (subst releaseCursor_evict.simps) auto
  qed
qed

lemma releaseCursor_ok:
  assumes "wt_ok api" and "\<not> isShuttingDown c" and "blockingCount c + 1 < 2147483648"
    and "session s \<noteq> 0" and "cursor \<noteq> 0"
  shows "releaseCursor api tunable i cursor config (c, s) =
     Inr (c\<lparr>wt_calls := wt_calls c @ cursor_reset cursor #
              map (\<lambda>e. cursor_close (cc_cursor e))
                (evicted (cacheSizeOf tunable) (pushed i cursor config s))\<rparr>,
          (pushed i cursor config s)\<lparr>cursors :=
              retained (cacheSizeOf tunable) (pushed i cursor config s)\<rparr>)"
  using assms
  by (simp add: releaseCursor_def isShuttingDown_enter releaseCursor_evict_ok pushed_def)

lemma cursorAge_pushed_new:
  "cursorAge (g + 1) \<lparr>cc_id = i, cc_gen = g, cc_cursor = h, cc_config = cfg\<rparr> = 1"
  by (simp add: cursorAge_def)

lemma cursorAge_succ:
  assumes "cursorAge g e < 4294967296"
  shows "cursorAge (g + 1) e = cursorAge g e + 1"
proof -
  have eq: "g + 1 - cc_gen e = (g - cc_gen e) + 1" by simp
  have "unat ((g - cc_gen e) + 1) = unat (g - cc_gen e) + 1"
  proof -
    have "unat (g - cc_gen e) + 1 < 4294967296 + 1" using assms by (simp add: cursorAge_def)
    also have "\<dots> < (18446744073709551616::nat)" by simp
    finally have "(unat (g - cc_gen e) + 1) mod 18446744073709551616 = unat (g - cc_gen e) + 1"
      by (rule mod_less)
    then show ?thesis by (simp add: unat_word_ariths)
  qed
  then show ?thesis by (simp only: cursorAge_def eq)
qed

lemma rev_dropWhile_sorted:
  fixes f :: "'a \<Rightarrow> nat"
  assumes "sorted_wrt (<) (map f xs)"
  shows "rev (dropWhile (\<lambda>e. L < f e) (rev xs)) = filter (\<lambda>e. f e \<le> L) xs"
  using assms
proof (induction xs rule: rev_induct)
  case Nil
  show ?case by simp
next
  case (snoc x xs)
  from snoc.prems have sorted: "sorted_wrt (<) (map f xs)" and below: "\<forall>y\<in>set xs. f y < f x"
    by (auto simp: sorted_wrt_append)
  show ?case
  proof (cases "L < f x")
    case True
    then show ?thesis using snoc.IH [OF sorted] by simp
  next
    case False
    with below have "filter (\<lambda>e. f e \<le> L) xs = xs" by (auto simp: filter_id_conv)
    with False show ?thesis by simp
  qed
qed

lemma takeWhile_rev_sorted:
  fixes f :: "'a \<Rightarrow> nat"
  assumes "sorted_wrt (<) (map f xs)"
  shows "takeWhile (\<lambda>e. L < f e) (rev xs) = rev (filter (\<lambda>e. L < f e) xs)"
  using assms
proof (induction xs rule: rev_induct)
  case Nil
  show ?case by simp
next
  case (snoc x xs)
  from snoc.prems have sorted: "sorted_wrt (<) (map f xs)" and below: "\<forall>y\<in>set xs. f y < f x"
    by (auto simp: sorted_wrt_append)
  show ?case
  proof (cases "L < f x")
    case True
    then show ?thesis using snoc.IH [OF sorted] by simp
  next
    case False
    with below have "filter (\<lambda>e. L < f e) xs = []" by (auto simp: filter_empty_conv)
    with False show ?thesis by simp
  qed
qed

lemma sorted_length_bound:
  fixes f :: "'a \<Rightarrow> nat"
  assumes "sorted_wrt (<) (map f ys)" and "\<forall>y\<in>set ys. 1 \<le> f y \<and> f y \<le> L"
  shows "length ys \<le> L"
proof -
  have d: "distinct (map f ys)" using assms(1) by (simp add: strict_sorted_iff)
  have "length ys = length (map f ys)" by simp
  also have "\<dots> = card (set (map f ys))" using d by (rule distinct_card [symmetric])
  also have "\<dots> = card (f ` set ys)" by simp
  also have "\<dots> \<le> card {1..L}" using assms(2) by (intro card_mono) auto
  finally show ?thesis by simp
qed

lemma sint_abs_bound: "\<bar>sint (t :: 32 word)\<bar> \<le> 2147483648"
  using sint_ge [of t] sint_lt [of t] by simp

lemma unat_cacheSizeOf: "unat (cacheSizeOf t) = nat \<bar>sint t\<bar>"
proof -
  have "\<bar>sint t\<bar> < 4294967296" using sint_abs_bound [of t] by simp
  then have "\<bar>sint t\<bar> mod 4294967296 = \<bar>sint t\<bar>" by simp
  then show ?thesis
    by (simp add: cacheSizeOf_def unat_eq_nat_uint uint_word_of_int)
qed











lemma pushed_ages:
  assumes "cursorCache_wf s"
  shows "map (cursorAge (cursorGen (pushed i h config s))) (cursors (pushed i h config s)) =
         1 # map (\<lambda>e. cursorAge (cursorGen s) e + 1) (cursors s)"
proof -
  have "\<forall>e\<in>set (cursors s). cursorAge (cursorGen s + 1) e = cursorAge (cursorGen s) e + 1"
    using assms by (simp add: cursorCache_wf_def list_all_iff cursorAge_succ)
  then show ?thesis by (simp add: pushed_def cursorAge_pushed_new)
qed

lemma pushed_sorted:
  assumes "cursorCache_wf s"
  shows "sorted_wrt (<) (map (cursorAge (cursorGen (pushed i h config s))) (cursors (pushed i h config s)))"
proof -
  from assms have "sorted_wrt (<) (map (cursorAge (cursorGen s)) (cursors s))"
    and "\<forall>e\<in>set (cursors s). 1 \<le> cursorAge (cursorGen s) e"
    by (auto simp: cursorCache_wf_def list_all_iff)
  then show ?thesis
    unfolding pushed_ages [OF assms] by (auto simp: sorted_wrt_map)
qed

lemma retained_filter:
  assumes "cursorCache_wf s"
  shows "retained cacheSize (pushed i h config s) =
     filter (\<lambda>e. cursorAge (cursorGen s + 1) e \<le> unat cacheSize) (cursors (pushed i h config s))"
  using rev_dropWhile_sorted [OF pushed_sorted [OF assms, of i h config], of "unat cacheSize"]
  by (simp add: retained_def) (simp add: pushed_def)

lemma evicted_filter:
  assumes "cursorCache_wf s"
  shows "evicted cacheSize (pushed i h config s) =
     rev (filter (\<lambda>e. unat cacheSize < cursorAge (cursorGen s + 1) e) (cursors (pushed i h config s)))"
  using takeWhile_rev_sorted [OF pushed_sorted [OF assms, of i h config], of "unat cacheSize"]
  by (simp add: evicted_def) (simp add: pushed_def)

lemma released_wf:
  assumes "cursorCache_wf s"
  shows "cursorCache_wf ((pushed i h config s)\<lparr>cursors := retained cacheSize (pushed i h config s)\<rparr>)"
    and "length (retained cacheSize (pushed i h config s)) \<le> unat cacheSize"
proof -
  let ?p = "pushed i h config s"
  let ?f = "cursorAge (cursorGen ?p)"
  let ?r = "filter (\<lambda>e. ?f e \<le> unat cacheSize) (cursors ?p)"
  have r: "retained cacheSize ?p = ?r"
    using retained_filter [OF assms, of cacheSize i h config] by (simp add: pushed_def)
  have sorted: "sorted_wrt (<) (map ?f ?r)"
    using pushed_sorted [OF assms, of i h config]
    by (simp add: sorted_wrt_map sorted_wrt_filter)
  have "\<forall>a\<in>set (map ?f (cursors ?p)). 1 \<le> a"
    unfolding pushed_ages [OF assms] by auto
  then have lo: "\<forall>e\<in>set ?r. 1 \<le> ?f e" by auto
  have hi: "\<forall>e\<in>set ?r. ?f e \<le> unat cacheSize" by auto
  have "unat cacheSize < 4294967296" using unsigned_less [of cacheSize] by simp
  with hi have hi': "\<forall>e\<in>set ?r. ?f e < 4294967296" by fastforce
  show "cursorCache_wf (?p\<lparr>cursors := retained cacheSize ?p\<rparr>)"
    unfolding r using sorted lo hi' by (simp add: cursorCache_wf_def list_all_iff)
  show "length (retained cacheSize ?p) \<le> unat cacheSize"
    unfolding r
  proof (rule sorted_length_bound)
    show "sorted_wrt (<) (map ?f ?r)" by (rule sorted)
    show "\<forall>y\<in>set ?r. 1 \<le> ?f y \<and> ?f y \<le> unat cacheSize" using lo hi by blast
  qed
qed

lemma releaseCursors_bounded:
  assumes "wt_ok api"
  shows "\<not> isShuttingDown c \<Longrightarrow> blockingCount c + 1 < 2147483648 \<Longrightarrow> session s \<noteq> 0 \<Longrightarrow>
     list_all (\<lambda>(i, h, config). h \<noteq> 0) rels \<Longrightarrow> cursorCache_wf s \<Longrightarrow>
     length (cursors s) \<le> unat (cacheSizeOf tunable) \<Longrightarrow>
     \<exists>c' s'. releaseCursors api tunable rels (c, s) = Inr (c', s') \<and>
        cursorCache_wf s' \<and> length (cursors s') \<le> unat (cacheSizeOf tunable)"
proof (induction rels arbitrary: c s)
  case Nil
  then show ?case by simp
next
  case (Cons rel rels)
  obtain i h config where rel: "rel = (i, h, config)" by (cases rel)
  let ?p = "pushed i h config s"
  let ?c = "c\<lparr>wt_calls := wt_calls c @ cursor_reset h #
              map (\<lambda>e. cursor_close (cc_cursor e)) (evicted (cacheSizeOf tunable) ?p)\<rparr>"
  let ?s = "?p\<lparr>cursors := retained (cacheSizeOf tunable) ?p\<rparr>"
  from Cons.prems rel have h: "h \<noteq> 0" and rest: "list_all (\<lambda>(i, h, config). h \<noteq> 0) rels"
    by simp_all
  have step: "releaseCursor api tunable i h config (c, s) = Inr (?c, ?s)"
    by (rule releaseCursor_ok [OF assms Cons.prems(1-3) h])
  have 1: "\<not> isShuttingDown ?c" using Cons.prems(1) by (simp add: isShuttingDown_def)
  have 2: "blockingCount ?c + 1 < 2147483648" using Cons.prems(2) by (simp add: blockingCount_def)
  have 3: "session ?s \<noteq> 0" using Cons.prems(3) by (simp add: pushed_def)
  have 4: "cursorCache_wf ?s" by (rule released_wf(1) [OF Cons.prems(5)])
  have 5: "length (cursors ?s) \<le> unat (cacheSizeOf tunable)"
    using released_wf(2) [OF Cons.prems(5), of "cacheSizeOf tunable" i h config] by simp
  from Cons.IH [OF 1 2 3 rest 4 5] show ?case by (simp add: rel step)
qed

lemma cursorCache_wf_new: "cursors s = [] \<Longrightarrow> cursorCache_wf s"
  by (simp add: cursorCache_wf_def)

text \<open>
  The other methods that touch the cursor cache keep it well formed: \<^verbatim>\<open>getCachedCursor\<close>
  removes one entry, \<^verbatim>\<open>closeAllCursors\<close> removes the entries it closes. So the cache of a
  session is well formed from its construction on.
\<close>

lemma getCachedCursor_scan_removes:
  "getCachedCursor_scan i config es = Some (h, es') \<Longrightarrow>
     \<exists>xs e ys. es = xs @ e # ys \<and> es' = xs @ ys \<and> cc_cursor e = h"
proof (induction es arbitrary: es')
  case Nil
  then show ?case by simp
next
  case (Cons a es)
  show ?case
  proof (cases "cc_id a = i \<and> cc_config a = config")
    case True
    with Cons.prems have "es' = es" and "cc_cursor a = h" by simp_all
    then have "a # es = [] @ a # es \<and> es' = [] @ es \<and> cc_cursor a = h" by simp
    then show ?thesis by blast
  next
    case False
    with Cons.prems obtain es1 where r: "getCachedCursor_scan i config es = Some (h, es1)"
      and e: "es' = a # es1"
      by (auto split: option.splits)
    from Cons.IH [OF r] obtain xs e ys where "es = xs @ e # ys" and "es1 = xs @ ys"
      and "cc_cursor e = h" by blast
    with e have "a # es = (a # xs) @ e # ys \<and> es' = (a # xs) @ ys \<and> cc_cursor e = h" by simp
    then show ?thesis by blast
  qed
qed

lemma getCachedCursor_wf:
  assumes "cursorCache_wf s"
  shows "cursorCache_wf (snd (getCachedCursor i config s))"
proof (cases "getCachedCursor_scan i config (cursors s)")
  case None
  with assms show ?thesis by (simp add: getCachedCursor_def)
next
  case (Some r)
  obtain h es' where r: "r = (h, es')" by (cases r)
  from getCachedCursor_scan_removes [OF Some [unfolded r]]
  obtain xs e ys where es: "cursors s = xs @ e # ys" and es': "es' = xs @ ys" by blast
  have g: "snd (getCachedCursor i config s) = s\<lparr>cursors := xs @ ys, cursorsOut := cursorsOut s + 1\<rparr>"
    by (simp add: getCachedCursor_def Some r es')
  from assms show ?thesis
    unfolding g by (auto simp: cursorCache_wf_def es sorted_wrt_append)
qed

lemma closeAllCursors_loop_filter:
  "closeAllCursors_loop api all uri es c = Inr (c', es') \<Longrightarrow>
     es' = filter (\<lambda>e. \<not> (cc_cursor e \<noteq> 0 \<and> (all \<or> uri = wt_cursor_uri api (cc_cursor e)))) es"
proof (induction es arbitrary: c es')
  case Nil
  then show ?case by simp
next
  case (Cons e es)
  then show ?case by (auto split: if_splits sum.splits)
qed

lemma WiredTigerSession_closeAllCursors_wf:
  assumes "cursorCache_wf s" and "WiredTigerSession_closeAllCursors api uri (c, s) = Inr (c', s')"
  shows "cursorCache_wf s'"
proof -
  from assms(2) obtain es where
    l: "closeAllCursors_loop api (uri = []) uri (cursors s) c = Inr (c', es)"
    and s': "s' = s\<lparr>cursors := es\<rparr>"
    by (auto simp: WiredTigerSession_closeAllCursors_def split: if_splits sum.splits)
  from closeAllCursors_loop_filter [OF l] assms(1) show ?thesis
    by (simp add: s' cursorCache_wf_def sorted_wrt_map sorted_wrt_filter list_all_iff)
qed

lemma scenario_A:
  "\<exists>c' s'. releaseCursors example_engine 2
        [(1, 11, ''cfgA''), (2, 12, ''cfgA''), (3, 13, ''cfgA'')]
        (new_WiredTigerSessionCache, example_session\<lparr>cursorsOut := 3\<rparr>) = Inr (c', s') \<and>
     map cc_id (cursors s') = [3, 2] \<and>
     wt_calls c' = [cursor_reset 11, cursor_reset 12, cursor_reset 13, cursor_close 11] \<and>
     getCachedCursor 1 ''cfgA'' s' = (0, s')"
  by (simp add: releaseCursor_def BlockShutdown_enter_def BlockShutdown_exit_def
      isShuttingDown_def kShuttingDownMask_def invariantWTOK_def example_engine_def
      example_session_def new_WiredTigerSessionCache_def releaseCursor_evict.simps
      cacheSizeOf_def getCachedCursor_def)


text \<open>
  C2. A session whose cursor cache is well formed (as a new one is, and as every release
  leaves it) and holds at most \<open>L\<close> cursors, \<open>L\<close> being the absolute value of the tunable
  and positive: after every sequence of \<^verbatim>\<open>releaseCursor\<close> calls the cache holds at most
  \<open>L\<close> cursors. One release keeps exactly the entries whose age (the new generation minus
  theirs) is at most \<open>L\<close> and closes the others, from the back of the list, oldest first.
  With \<open>L = 2\<close>, releasing ids 1, 2, 3 on a new session leaves ids 3 and 2 cached, closes
  the cursor of id 1, and \<^verbatim>\<open>getCachedCursor(1, "cfgA")\<close> returns \<^verbatim>\<open>nullptr\<close>.
\<close>

theorem releaseCursor_bounded_cache:
  assumes "wt_ok api" and "\<not> isShuttingDown c" and "blockingCount c + 1 < 2147483648"
    and "session s \<noteq> 0" and "cursorCache_wf s" and "length (cursors s) \<le> L"
    and "L = nat \<bar>sint tunable\<bar>" and "0 < L"
    and "h \<noteq> 0" and "list_all (\<lambda>(i, h, config). h \<noteq> 0) rels"
  shows "(\<exists>c' s'. releaseCursors api tunable rels (c, s) = Inr (c', s') \<and>
            length (cursors s') \<le> L \<and> cursorCache_wf s') \<and>
         (\<exists>c' s'. releaseCursor api tunable i h config (c, s) = Inr (c', s') \<and>
            cursors s' = filter (\<lambda>e. cursorAge (cursorGen s') e \<le> L)
               (\<lparr>cc_id = i, cc_gen = cursorGen s, cc_cursor = h, cc_config = config\<rparr> # cursors s) \<and>
            wt_calls c' = wt_calls c @ cursor_reset h # map (\<lambda>e. cursor_close (cc_cursor e))
               (rev (filter (\<lambda>e. L < cursorAge (cursorGen s') e) (cursors s))) \<and>
            cursorGen s' = cursorGen s + 1 \<and> length (cursors s') \<le> L \<and> cursorCache_wf s') \<and>
         (\<exists>c' s'. releaseCursors example_engine 2
               [(1, 11, ''cfgA''), (2, 12, ''cfgA''), (3, 13, ''cfgA'')]
               (new_WiredTigerSessionCache, example_session\<lparr>cursorsOut := 3\<rparr>) = Inr (c', s') \<and>
            map cc_id (cursors s') = [3, 2] \<and>
            wt_calls c' = [cursor_reset 11, cursor_reset 12, cursor_reset 13, cursor_close 11] \<and>
            getCachedCursor 1 ''cfgA'' s' = (0, s'))"
proof -
  have L: "unat (cacheSizeOf tunable) = L" using assms(7) by (simp add: unat_cacheSizeOf)
  let ?p = "pushed i h config s"
  let ?c = "c\<lparr>wt_calls := wt_calls c @ cursor_reset h #
              map (\<lambda>e. cursor_close (cc_cursor e)) (evicted (cacheSizeOf tunable) ?p)\<rparr>"
  let ?s = "?p\<lparr>cursors := retained (cacheSizeOf tunable) ?p\<rparr>"
  have step: "releaseCursor api tunable i h config (c, s) = Inr (?c, ?s)"
    by (rule releaseCursor_ok [OF assms(1-4) assms(9)])
  have r: "cursors ?s = filter (\<lambda>e. cursorAge (cursorGen ?s) e \<le> L)
               (\<lparr>cc_id = i, cc_gen = cursorGen s, cc_cursor = h, cc_config = config\<rparr> # cursors s)"
    using retained_filter [OF assms(5), of "cacheSizeOf tunable" i h config]
    by (simp add: L) (simp add: pushed_def)
  have "\<not> L < cursorAge (cursorGen s + 1)
       \<lparr>cc_id = i, cc_gen = cursorGen s, cc_cursor = h, cc_config = config\<rparr>"
    using assms(8) by (simp add: cursorAge_pushed_new)
  then have e: "wt_calls ?c = wt_calls c @ cursor_reset h # map (\<lambda>e. cursor_close (cc_cursor e))
               (rev (filter (\<lambda>e. L < cursorAge (cursorGen ?s) e) (cursors s)))"
    using evicted_filter [OF assms(5), of "cacheSizeOf tunable" i h config]
    by (simp add: L) (simp add: pushed_def)
  have g: "cursorGen ?s = cursorGen s + 1" by (simp add: pushed_def)
  have w: "cursorCache_wf ?s" by (rule released_wf(1) [OF assms(5)])
  have l: "length (cursors ?s) \<le> L"
    using released_wf(2) [OF assms(5), of "cacheSizeOf tunable" i h config] by (simp add: L)
  have seq: "\<exists>c' s'. releaseCursors api tunable rels (c, s) = Inr (c', s') \<and>
        cursorCache_wf s' \<and> length (cursors s') \<le> unat (cacheSizeOf tunable)"
    by (rule releaseCursors_bounded [OF assms(1-4) assms(10) assms(5)]) (simp add: L assms(6))
  from seq step r e g w l scenario_A show ?thesis unfolding L by blast
qed


theorem releaseCursor_bounded_cache_witness:
  "wt_ok example_engine \<and> \<not> isShuttingDown new_WiredTigerSessionCache \<and>
   blockingCount new_WiredTigerSessionCache + 1 < 2147483648 \<and>
   session (example_session\<lparr>cursorsOut := 3\<rparr>) \<noteq> 0 \<and>
   cursorCache_wf (example_session\<lparr>cursorsOut := 3\<rparr>) \<and>
   length (cursors (example_session\<lparr>cursorsOut := 3\<rparr>)) \<le> 2 \<and>
   (2::nat) = nat \<bar>sint (2 :: 32 word)\<bar> \<and>
   list_all (\<lambda>(i, h, config). h \<noteq> 0)
     [(1 :: 64 word, 11 :: nat, ''cfgA''), (2, 12, ''cfgA''), (3, 13, ''cfgA'')] \<and>
   (\<exists>c' s'. releaseCursors example_engine 2
         [(1, 11, ''cfgA''), (2, 12, ''cfgA''), (3, 13, ''cfgA'')]
         (new_WiredTigerSessionCache, example_session\<lparr>cursorsOut := 3\<rparr>) = Inr (c', s') \<and>
      length (cursors s') \<le> 2 \<and> cursorCache_wf s')"
proof -
  have a: "\<not> isShuttingDown new_WiredTigerSessionCache"
    by (simp add: isShuttingDown_def new_WiredTigerSessionCache_def)
  have b: "blockingCount new_WiredTigerSessionCache + 1 < 2147483648"
    by (simp add: blockingCount_def new_WiredTigerSessionCache_def)
  have s: "session (example_session\<lparr>cursorsOut := 3\<rparr>) \<noteq> 0" by (simp add: example_session_def)
  have w: "cursorCache_wf (example_session\<lparr>cursorsOut := 3\<rparr>)"
    by (rule cursorCache_wf_new) (simp add: example_session_def)
  have l: "length (cursors (example_session\<lparr>cursorsOut := 3\<rparr>)) \<le> 2"
    by (simp add: example_session_def)
  have t: "(2::nat) = nat \<bar>sint (2 :: 32 word)\<bar>" by simp
  have p: "0 < (2::nat)" by simp
  have h: "(11::nat) \<noteq> 0" by simp
  have r: "list_all (\<lambda>(i, h, config). h \<noteq> 0)
      [(1 :: 64 word, 11 :: nat, ''cfgA''), (2, 12, ''cfgA''), (3, 13, ''cfgA'')]" by simp
  from releaseCursor_bounded_cache [OF wt_ok_example_engine a b s w l t p h r]
  show ?thesis using a b s w l r wt_ok_example_engine by simp
qed

text \<open>
  C4. What \<^verbatim>\<open>getNewCursor\<close> does with the status of \<^verbatim>\<open>open_cursor\<close>, \<^verbatim>\<open>wtRCToStatus\<close> giving
  a status that is not OK for \<^verbatim>\<open>EBUSY\<close>: on 0 it returns the new cursor and counts it in
  \<open>cursorsOut\<close>; on \<^verbatim>\<open>ENOENT\<close> it throws \<^verbatim>\<open>CursorNotFound\<close>; on \<^verbatim>\<open>EBUSY\<close> it throws the
  status; both are exceptions, not fatal. On any other status the process ends with the
  fatal log 50882, which carries the uri, the configuration and the status.
\<close>

theorem getNewCursor_outcomes:
  assumes "wtRCToStatus api EBUSY \<noteq> StatusOK"
  shows "getNewCursor api uri config (c, s) =
     (let call = open_cursor (session s) uri config;
          ret = wt_ret api (wt_calls c) call
      in if ret = 0
         then Inr (wt_new_cursor api (wt_calls c) call, c\<lparr>wt_calls := wt_calls c @ [call]\<rparr>,
                   s\<lparr>cursorsOut := cursorsOut s + 1\<rparr>)
         else if ret = ENOENT
         then Inl (Uasserted CursorNotFound (wtRCToStatus api ret) uri config)
         else if ret = EBUSY then Inl (UassertedStatus (wtRCToStatus api ret))
         else Inl (FatalLog 50882 uri config (wtRCToStatus api ret))) \<and>
     \<not> is_fatal (Uasserted CursorNotFound st uri config) \<and>
     \<not> is_fatal (UassertedStatus st) \<and>
     is_fatal (FatalLog 50882 uri config st)"
  using assms
  by (simp add: getNewCursor_def openCursor_def Let_def is_fatal_def ENOENT_def EBUSY_def)

theorem getNewCursor_outcomes_witness:
  "wtRCToStatus example_engine EBUSY \<noteq> StatusOK \<and>
   getNewCursor example_engine ''table:t'' None (new_WiredTigerSessionCache, example_session) =
     Inr (1, new_WiredTigerSessionCache\<lparr>wt_calls := [open_cursor 1 ''table:t'' None]\<rparr>,
          example_session\<lparr>cursorsOut := 2\<rparr>) \<and>
   getNewCursor (example_engine\<lparr>wt_ret := \<lambda>calls call. ENOENT\<rparr>) ''table:t'' None
       (new_WiredTigerSessionCache, example_session) =
     Inl (Uasserted CursorNotFound (StatusNotOK 8 []) ''table:t'' None) \<and>
   getNewCursor (example_engine\<lparr>wt_ret := \<lambda>calls call. EBUSY\<rparr>) ''table:t'' None
       (new_WiredTigerSessionCache, example_session) =
     Inl (UassertedStatus (StatusNotOK 8 [])) \<and>
   getNewCursor (example_engine\<lparr>wt_ret := \<lambda>calls call. 5\<rparr>) ''table:t'' None
       (new_WiredTigerSessionCache, example_session) =
     Inl (FatalLog 50882 ''table:t'' None (StatusNotOK 8 []))"
proof -
  have b: "wtRCToStatus example_engine EBUSY \<noteq> StatusOK"
    by (simp add: example_engine_def EBUSY_def)
  have b1: "wtRCToStatus (example_engine\<lparr>wt_ret := \<lambda>calls call. ENOENT\<rparr>) EBUSY \<noteq> StatusOK"
    and b2: "wtRCToStatus (example_engine\<lparr>wt_ret := \<lambda>calls call. EBUSY\<rparr>) EBUSY \<noteq> StatusOK"
    and b3: "wtRCToStatus (example_engine\<lparr>wt_ret := \<lambda>calls call. 5\<rparr>) EBUSY \<noteq> StatusOK"
    by (simp_all add: example_engine_def EBUSY_def)
  from getNewCursor_outcomes [OF b, of "''table:t''" None new_WiredTigerSessionCache example_session]
       getNewCursor_outcomes [OF b1, of "''table:t''" None new_WiredTigerSessionCache example_session]
       getNewCursor_outcomes [OF b2, of "''table:t''" None new_WiredTigerSessionCache example_session]
       getNewCursor_outcomes [OF b3, of "''table:t''" None new_WiredTigerSessionCache example_session]
       b
  show ?thesis
    by (simp add: example_engine_def example_session_def new_WiredTigerSessionCache_def
        ENOENT_def EBUSY_def)
qed


subsection \<open>Session configuration\<close>

lemma invariantWTOK_each_ok:
  "wt_ok api \<Longrightarrow> invariantWTOK_each api calls c = Inr (c\<lparr>wt_calls := wt_calls c @ calls\<rparr>)"
  by (induction calls arbitrary: c) simp_all

lemma reconfigure_ok:
  assumes "wt_ok api"
  shows "reconfigure api newConfig undoConfig (c, s) =
     Inr (c\<lparr>wt_calls := wt_calls c @ [session_reconfigure (session s) newConfig]\<rparr>,
          s\<lparr>undoConfigStrings :=
              (if newConfig = undoConfig then Dlist.remove undoConfig (undoConfigStrings s)
               else Dlist.insert undoConfig (undoConfigStrings s))\<rparr>)"
  using assms by (simp add: reconfigure_def)

lemma undoSet_reconfigured:
  "undoSet (s\<lparr>undoConfigStrings :=
              (if newConfig = undoConfig then Dlist.remove undoConfig (undoConfigStrings s)
               else Dlist.insert undoConfig (undoConfigStrings s))\<rparr>) =
   (if newConfig = undoConfig then undoSet s - {undoConfig} else insert undoConfig (undoSet s))"
  by (simp add: undoSet_def)

lemma reconfigures_ok:
  assumes "wt_ok api"
  shows "\<exists>c' s'. reconfigures api pairs (c, s) = Inr (c', s') \<and>
     undoSet s' = undoSet_after pairs (undoSet s) \<and> session s' = session s \<and>
     wt_calls c' = wt_calls c @ map (\<lambda>(n, u). session_reconfigure (session s) n) pairs"
proof (induction pairs arbitrary: c s)
  case Nil
  show ?case by simp
next
  case (Cons p pairs)
  obtain n u where p: "p = (n, u)" by (cases p)
  let ?c = "c\<lparr>wt_calls := wt_calls c @ [session_reconfigure (session s) n]\<rparr>"
  let ?s = "s\<lparr>undoConfigStrings :=
              (if n = u then Dlist.remove u (undoConfigStrings s)
               else Dlist.insert u (undoConfigStrings s))\<rparr>"
  from Cons.IH [of ?c ?s] obtain c' s' where
    r: "reconfigures api pairs (?c, ?s) = Inr (c', s')"
    and u: "undoSet s' = undoSet_after pairs (undoSet ?s)" and h: "session s' = session ?s"
    and l: "wt_calls c' = wt_calls ?c @ map (\<lambda>(n, u). session_reconfigure (session ?s) n) pairs"
    by blast
  have "reconfigures api (p # pairs) (c, s) = Inr (c', s')"
    by (simp add: p reconfigure_ok [OF assms] r)
  moreover have "undoSet s' = undoSet_after (p # pairs) (undoSet s)"
    unfolding u undoSet_reconfigured by (simp add: p)
  moreover have "session s' = session s" using h by simp
  moreover have "wt_calls c' = wt_calls c @ map (\<lambda>(n, u). session_reconfigure (session s) n) (p # pairs)"
    using l by (simp add: p)
  ultimately show ?case by blast
qed

lemma resetSessionConfiguration_ok:
  assumes "wt_ok api"
  shows "resetSessionConfiguration api (c, s) =
     Inr (c\<lparr>wt_calls := wt_calls c @
              map (session_reconfigure (session s)) (list_of_dlist (undoConfigStrings s))\<rparr>,
          s\<lparr>undoConfigStrings := Dlist.empty\<rparr>)"
  by (simp add: resetSessionConfiguration_def invariantWTOK_each_ok [OF assms])

text \<open>
  C7. With an engine whose calls succeed: one \<^verbatim>\<open>reconfigure(new, undo)\<close> adds \<open>undo\<close> to
  the undo set, unless \<open>new = undo\<close>, when it removes \<open>undo\<close> from the set (so that pair
  leaves nothing of its own in the set); a sequence of calls leaves the set the
  specification describes; and \<^verbatim>\<open>resetSessionConfiguration\<close> then passes each string of
  the undo set to the engine exactly once and leaves the set empty.
\<close>

theorem reconfigure_undo_round_trip:
  assumes "wt_ok api"
  shows "(\<exists>c' s'. reconfigure api newConfig undoConfig (c, s) = Inr (c', s') \<and>
            undoSet s' = (if newConfig = undoConfig then undoSet s - {undoConfig}
                          else insert undoConfig (undoSet s)) \<and>
            wt_calls c' = wt_calls c @ [session_reconfigure (session s) newConfig]) \<and>
         (\<exists>c' s'. reconfigures api pairs (c, s) = Inr (c', s') \<and>
            undoSet s' = undoSet_after pairs (undoSet s) \<and>
            (\<exists>c'' s'' applied. resetSessionConfiguration api (c', s') = Inr (c'', s'') \<and>
               wt_calls c'' = wt_calls c' @ map (session_reconfigure (session s)) applied \<and>
               distinct applied \<and> set applied = undoSet s' \<and> undoSet s'' = {}))"
proof -
  have one: "\<exists>c' s'. reconfigure api newConfig undoConfig (c, s) = Inr (c', s') \<and>
            undoSet s' = (if newConfig = undoConfig then undoSet s - {undoConfig}
                          else insert undoConfig (undoSet s)) \<and>
            wt_calls c' = wt_calls c @ [session_reconfigure (session s) newConfig]"
    unfolding reconfigure_ok [OF assms] using undoSet_reconfigured by simp
  from reconfigures_ok [OF assms, of pairs c s] obtain c' s' where
    r: "reconfigures api pairs (c, s) = Inr (c', s')"
    and u: "undoSet s' = undoSet_after pairs (undoSet s)" and h: "session s' = session s"
    by blast
  let ?applied = "list_of_dlist (undoConfigStrings s')"
  have "resetSessionConfiguration api (c', s') =
     Inr (c'\<lparr>wt_calls := wt_calls c' @ map (session_reconfigure (session s)) ?applied\<rparr>,
          s'\<lparr>undoConfigStrings := Dlist.empty\<rparr>)"
    using resetSessionConfiguration_ok [OF assms, of c' s'] by (simp add: h)
  moreover have "distinct ?applied" by simp
  moreover have "set ?applied = undoSet s'" by (simp add: undoSet_def)
  moreover have "undoSet (s'\<lparr>undoConfigStrings := Dlist.empty\<rparr>) = {}" by (simp add: undoSet_def)
  ultimately have "\<exists>c'' s'' applied. resetSessionConfiguration api (c', s') = Inr (c'', s'') \<and>
               wt_calls c'' = wt_calls c' @ map (session_reconfigure (session s)) applied \<and>
               distinct applied \<and> set applied = undoSet s' \<and> undoSet s'' = {}"
    by (intro exI [of _ "c'\<lparr>wt_calls := wt_calls c' @ map (session_reconfigure (session s)) ?applied\<rparr>"]
              exI [of _ "s'\<lparr>undoConfigStrings := Dlist.empty\<rparr>"] exI [of _ ?applied]) simp
  with r u one show ?thesis by blast
qed

lemma distinct_singleton_set: "distinct xs \<Longrightarrow> set xs = {x} \<Longrightarrow> xs = [x]"
proof (cases xs)
  case Nil
  assume "set xs = {x}"
  with Nil show ?thesis by simp
next
  case (Cons y ys)
  assume d: "distinct xs" and s: "set xs = {x}"
  from s Cons have y: "y = x" by auto
  from s Cons have "set ys \<subseteq> {x}" by auto
  moreover from d Cons y have "x \<notin> set ys" by simp
  ultimately have "ys = []" by (cases ys) auto
  with Cons y show ?thesis by simp
qed

theorem reconfigure_undo_round_trip_witness:
  "wt_ok example_engine \<and>
   (\<exists>c' s'. reconfigures example_engine [(''x=1'', ''x=0''), (''y=2'', ''y=0''), (''x=0'', ''x=0'')]
        (new_WiredTigerSessionCache, example_session) = Inr (c', s') \<and>
      undoSet s' = {''y=0''} \<and>
      (\<exists>c'' s''. resetSessionConfiguration example_engine (c', s') = Inr (c'', s'') \<and>
         wt_calls c'' = wt_calls c' @ [session_reconfigure 1 ''y=0''] \<and> undoSet s'' = {}))"
proof -
  let ?pairs = "[(''x=1'', ''x=0''), (''y=2'', ''y=0''), (''x=0'', ''x=0'')]"
  have u: "undoSet example_session = {}" by (simp add: undoSet_def example_session_def)
  have h: "session example_session = 1" by (simp add: example_session_def)
  have ua: "undoSet_after ?pairs {} = {''y=0''}" by (simp add: insert_Diff_if)
  have "\<exists>c' s'. reconfigures example_engine ?pairs
            (new_WiredTigerSessionCache, example_session) = Inr (c', s') \<and>
            undoSet s' = undoSet_after ?pairs (undoSet example_session) \<and>
            (\<exists>c'' s'' applied. resetSessionConfiguration example_engine (c', s') = Inr (c'', s'') \<and>
               wt_calls c'' = wt_calls c' @ map (session_reconfigure (session example_session)) applied \<and>
               distinct applied \<and> set applied = undoSet s' \<and> undoSet s'' = {})"
    by (rule conjunct2 [OF reconfigure_undo_round_trip [OF wt_ok_example_engine,
          of "''x=1''" "''x=0''" new_WiredTigerSessionCache example_session ?pairs]])
  then obtain c' s' c'' s'' applied where
    r: "reconfigures example_engine ?pairs (new_WiredTigerSessionCache, example_session) = Inr (c', s')"
    and a: "undoSet s' = undoSet_after ?pairs (undoSet example_session)"
    and z: "resetSessionConfiguration example_engine (c', s') = Inr (c'', s'')"
    and l: "wt_calls c'' = wt_calls c' @ map (session_reconfigure (session example_session)) applied"
    and d: "distinct applied" and e: "set applied = undoSet s'" and n: "undoSet s'' = {}"
    by blast
  from a have a': "undoSet s' = {''y=0''}" unfolding u ua .
  from d e have "applied = [''y=0'']" unfolding a' by (rule distinct_singleton_set)
  with l have l': "wt_calls c'' = wt_calls c' @ [session_reconfigure 1 ''y=0'']" by (simp add: h)
  from z l' n have "\<exists>c'' s''. resetSessionConfiguration example_engine (c', s') = Inr (c'', s'') \<and>
         wt_calls c'' = wt_calls c' @ [session_reconfigure 1 ''y=0''] \<and> undoSet s'' = {}"
    by blast
  with r a' wt_ok_example_engine show ?thesis by blast
qed

subsection \<open>What an operation leaves unchanged\<close>

lemma same_cache_refl [simp]: "same_cache c c"
  by (simp add: same_cache_def)




































subsection \<open>Epochs\<close>







lemmas eval_defs =
  getSession_def releaseSession_def closeAll_def shuttingDown_def restart_def
  new_WiredTigerSession_def delete_WiredTigerSession_def resetSessionConfiguration_def
  BlockShutdown_enter_def BlockShutdown_exit_def isShuttingDown_def kShuttingDownMask_def
  invariantWTOK_def example_engine_def example_session_def new_WiredTigerSessionCache_def
  Date_t_min_def


subsection \<open>Shutdown\<close>





lemma delete_each_ok:
  "wt_ok api \<Longrightarrow> delete_each api ss c = Inr (c\<lparr>wt_calls := wt_calls c @ close_calls ss\<rparr>)"
  by (induction ss arbitrary: c) (simp_all add: close_calls_def delete_WiredTigerSession_def)

lemma closeAll_ok:
  "wt_ok api \<Longrightarrow> closeAll api c =
     Inr (c\<lparr>cache_epoch := cache_epoch c + 1, sessions := [],
           wt_calls := wt_calls c @ close_calls (sessions c)\<rparr>)"
  by (simp add: closeAll_def delete_each_ok)

lemma word_zero_of_idle:
  fixes w :: "32 word"
  assumes "\<not> w AND kShuttingDownMask \<noteq> 0" and "unat (w AND NOT kShuttingDownMask) = 0"
  shows "w = 0"
proof -
  from assms(1) have "unat w < 2147483648" by (simp add: isShuttingDown_word_iff)
  moreover from assms(2) have "unat w mod 2147483648 = 0" by (simp add: blockingCount_word)
  ultimately have "unat w = 0" by simp
  then show ?thesis by (simp add: unat_eq_0)
qed

lemma shuttingDown_returns:
  assumes "wt_ok api" and "\<not> isShuttingDown c" and "blockingCount c = 0"
  shows "shuttingDown api sched c =
     Some (Inr (c\<lparr>shuttingDownWord := kShuttingDownMask, cache_epoch := cache_epoch c + 1,
                 sessions := [], wt_calls := wt_calls c @ close_calls (sessions c)\<rparr>))"
proof -
  from assms(2,3) have w: "shuttingDownWord c = 0"
    by (intro word_zero_of_idle) (simp_all add: isShuttingDown_def blockingCount_def)
  have "shuttingDown_spin sched (c\<lparr>shuttingDownWord := kShuttingDownMask\<rparr>) =
      Some (c\<lparr>shuttingDownWord := kShuttingDownMask\<rparr>)"
    by (cases sched) simp_all
  then show ?thesis
    by (simp add: shuttingDown_def w closeAll_ok [OF assms(1)])
qed

lemma shuttingDown_spin_drains:
  "k < 2147483648 \<Longrightarrow> shuttingDownWord c = kShuttingDownMask + of_nat k \<Longrightarrow>
     shuttingDown_spin (replicate k [ScopeExit]) c = Some (c\<lparr>shuttingDownWord := kShuttingDownMask\<rparr>)"
proof (induction k arbitrary: c)
  case 0
  then show ?case by simp
next
  case (Suc k)
  have "(of_nat (Suc k) :: 32 word) \<noteq> 0"
    using Suc.prems(1) by (intro of_nat_neq_0) simp_all
  with Suc.prems(2) have ne: "shuttingDownWord c \<noteq> kShuttingDownMask" by simp
  have w: "shuttingDownWord (BlockShutdown_exit c) = kShuttingDownMask + of_nat k"
    using Suc.prems(2) by (simp add: BlockShutdown_exit_def)
  from Suc.prems(1) have k: "k < 2147483648" by simp
  from Suc.IH [OF k w] ne show ?case
    by (simp add: BlockShutdown_exit_def)
qed






subsection \<open>Idle sessions\<close>

lemma closeExpiredIdleSessions_scan_eq:
  "closeExpiredIdleSessions_scan cutoffTime ss =
     (if list_ex (\<lambda>s. idleExpireTime s = Date_t_min) ss then Inl InvariantFailure
      else Inr (filter (\<lambda>s. \<not> idleExpireTime s < cutoffTime) ss,
                filter (\<lambda>s. idleExpireTime s < cutoffTime) ss))"
  by (induction ss) auto

text \<open>
  C6, as the code has it. With a timeout of 0 or less \<^verbatim>\<open>closeExpiredIdleSessions\<close> does
  nothing. With a positive timeout \<open>T\<close> it fails its invariant when a pooled session has
  the sentinel time; otherwise it keeps the sessions idle for \<open>T\<close> or less, in their order,
  and destroys the sessions idle for more than \<open>T\<close> (those whose idle time is strictly
  before \<open>now - T\<close>).
\<close>

theorem closeExpiredIdleSessions_strict:
  assumes "wt_ok api"
  shows "closeExpiredIdleSessions api now idleTimeMillis c =
     (if idleTimeMillis \<le> 0 then Inr c
      else if list_ex (\<lambda>s. idleExpireTime s = Date_t_min) (sessions c) then Inl InvariantFailure
      else Inr (c\<lparr>sessions := filter (\<lambda>s. now - idleExpireTime s \<le> idleTimeMillis) (sessions c),
                 wt_calls := wt_calls c @
                   close_calls (filter (\<lambda>s. idleTimeMillis < now - idleExpireTime s) (sessions c))\<rparr>))"
proof -
  have k: "(\<lambda>s. \<not> idleExpireTime s < now - idleTimeMillis) = (\<lambda>s. now - idleExpireTime s \<le> idleTimeMillis)"
    by (rule ext) arith
  have d: "(\<lambda>s. idleExpireTime s < now - idleTimeMillis) = (\<lambda>s. idleTimeMillis < now - idleExpireTime s)"
    by (rule ext) arith
  show ?thesis
    by (simp add: closeExpiredIdleSessions_def closeExpiredIdleSessions_scan_eq
        delete_each_ok [OF assms] k d)
qed

theorem closeExpiredIdleSessions_strict_witness:
  "wt_ok example_engine \<and>
   closeExpiredIdleSessions example_engine 5000 3000
     (new_WiredTigerSessionCache
        \<lparr>sessions := [example_session\<lparr>cursorsOut := 0, idleExpireTime := 0\<rparr>,
                      example_session\<lparr>session := 2, cursorsOut := 0, idleExpireTime := 2000\<rparr>]\<rparr>) =
   Inr (new_WiredTigerSessionCache
        \<lparr>sessions := [example_session\<lparr>session := 2, cursorsOut := 0, idleExpireTime := 2000\<rparr>],
         wt_calls := [session_close 1]\<rparr>) \<and>
   closeExpiredIdleSessions example_engine 5000 0
     (new_WiredTigerSessionCache
        \<lparr>sessions := [example_session\<lparr>cursorsOut := 0, idleExpireTime := 0\<rparr>]\<rparr>) =
   Inr (new_WiredTigerSessionCache
        \<lparr>sessions := [example_session\<lparr>cursorsOut := 0, idleExpireTime := 0\<rparr>]\<rparr>) \<and>
   closeExpiredIdleSessions example_engine 5000 3000
     (new_WiredTigerSessionCache\<lparr>sessions := [example_session]\<rparr>) = Inl InvariantFailure"
  using closeExpiredIdleSessions_strict [OF wt_ok_example_engine, of 5000 3000
     "new_WiredTigerSessionCache
        \<lparr>sessions := [example_session\<lparr>cursorsOut := 0, idleExpireTime := 0\<rparr>,
                      example_session\<lparr>session := 2, cursorsOut := 0, idleExpireTime := 2000\<rparr>]\<rparr>"]
    closeExpiredIdleSessions_strict [OF wt_ok_example_engine, of 5000 0
     "new_WiredTigerSessionCache
        \<lparr>sessions := [example_session\<lparr>cursorsOut := 0, idleExpireTime := 0\<rparr>]\<rparr>"]
    closeExpiredIdleSessions_strict [OF wt_ok_example_engine, of 5000 3000
     "new_WiredTigerSessionCache\<lparr>sessions := [example_session]\<rparr>"]
    wt_ok_example_engine
  by (simp add: close_calls_def example_session_def new_WiredTigerSessionCache_def Date_t_min_def)


text \<open>
  A session idle for exactly the timeout is kept: released at 2000, it is still in the pool
  after the call at 5000 with a timeout of 3000.
\<close>

theorem closeExpiredIdleSessions_boundary:
  "releaseSession example_engine 2 2000 (example_session\<lparr>cursorsOut := 0\<rparr>)
       new_WiredTigerSessionCache =
     Inr (new_WiredTigerSessionCache
        \<lparr>wt_calls := [transaction_pinned_range 1, session_reset 1],
         sessions := [example_session\<lparr>cursorsOut := 0, idleExpireTime := 2000\<rparr>]\<rparr>) \<and>
   (3000::int) \<le> 5000 - idleExpireTime (example_session\<lparr>cursorsOut := 0, idleExpireTime := 2000\<rparr>) \<and>
   closeExpiredIdleSessions example_engine 5000 3000
     (new_WiredTigerSessionCache
        \<lparr>wt_calls := [transaction_pinned_range 1, session_reset 1],
         sessions := [example_session\<lparr>cursorsOut := 0, idleExpireTime := 2000\<rparr>]\<rparr>) =
   Inr (new_WiredTigerSessionCache
        \<lparr>wt_calls := [transaction_pinned_range 1, session_reset 1],
         sessions := [example_session\<lparr>cursorsOut := 0, idleExpireTime := 2000\<rparr>]\<rparr>)"
  by (simp add: closeExpiredIdleSessions_def eval_defs)

subsection \<open>The release of a session\<close>

lemma closeAllCursors_loop_ok:
  assumes "wt_ok api"
  shows "closeAllCursors_loop api True uri es c =
     Inr (c\<lparr>wt_calls := wt_calls c @
              map (\<lambda>e. cursor_close (cc_cursor e)) (filter (\<lambda>e. cc_cursor e \<noteq> 0) es)\<rparr>,
          filter (\<lambda>e. cc_cursor e = 0) es)"
  using assms by (induction es arbitrary: c) simp_all

lemma isShuttingDown_calls [simp]: "isShuttingDown (c\<lparr>wt_calls := calls\<rparr>) = isShuttingDown c"
  by (simp add: isShuttingDown_def)

text \<open>
  C8, as the code has it. When the tunable read at the release is negative, the cache is
  not shutting down and the session is of the current epoch, \<^verbatim>\<open>releaseSession\<close> closes
  every cached cursor (in the order of the cache) before it resets the session, and the
  session it pushes to the pool holds no cached cursor.
\<close>

theorem releaseSession_hybrid_closes_cursors:
  assumes "wt_ok api" and "\<not> isShuttingDown c" and "blockingCount c + 1 < 2147483648"
    and "cursorsOut s = 0" and "wt_pinned_range api (wt_calls c) (session s) = 0"
    and "session s \<noteq> 0" and "list_all (\<lambda>e. cc_cursor e \<noteq> 0) (cursors s)"
    and "epoch s = cache_epoch c" and "sint tunable < 0"
  shows "releaseSession api tunable now s c =
     Inr (c\<lparr>wt_calls := wt_calls c @ transaction_pinned_range (session s) #
                map (\<lambda>e. cursor_close (cc_cursor e)) (cursors s) @
                map (session_reconfigure (session s)) (list_of_dlist (undoConfigStrings s)) @
                [session_reset (session s)],
            sessions := sessions c @
                [s\<lparr>cursors := [], undoConfigStrings := Dlist.empty, idleExpireTime := now\<rparr>]\<rparr>)"
proof -
  from assms(7) have f1: "filter (\<lambda>e. 0 < cc_cursor e) (cursors s) = cursors s"
    and f2: "filter (\<lambda>e. cc_cursor e = 0) (cursors s) = []"
    by (simp_all add: list_all_iff filter_empty_conv)
  from assms(2,3) have n: "\<not> isShuttingDown (BlockShutdown_enter c)"
    by (simp add: isShuttingDown_enter)
  show ?thesis
    using assms(1,2,4,5,6,8,9) n
    by (simp add: releaseSession_def WiredTigerSession_closeAllCursors_def
        closeAllCursors_loop_ok f1 f2 resetSessionConfiguration_def invariantWTOK_each_ok
        BlockShutdown_enter_def BlockShutdown_exit_def)
qed

theorem releaseSession_hybrid_closes_cursors_witness:
  "wt_ok example_engine \<and> \<not> isShuttingDown (new_WiredTigerSessionCache\<lparr>wt_calls := [cursor_reset 7]\<rparr>) \<and>
   sint (- 100 :: 32 word) < 0 \<and>
   releaseSession example_engine (- 100) 5000
       (example_session\<lparr>cursorsOut := 0,
            cursors := [\<lparr>cc_id = 1, cc_gen = 0, cc_cursor = 7, cc_config = ''cfgA''\<rparr>],
            cursorGen := 1\<rparr>)
       (new_WiredTigerSessionCache\<lparr>wt_calls := [cursor_reset 7]\<rparr>) =
     Inr (new_WiredTigerSessionCache
          \<lparr>wt_calls := [cursor_reset 7, transaction_pinned_range 1, cursor_close 7, session_reset 1],
           sessions := [example_session\<lparr>cursorsOut := 0, cursors := [],
              cursorGen := 1, idleExpireTime := 5000\<rparr>]\<rparr>)"
proof -
  let ?c = "new_WiredTigerSessionCache\<lparr>wt_calls := [cursor_reset 7]\<rparr>"
  let ?s = "example_session\<lparr>cursorsOut := 0,
            cursors := [\<lparr>cc_id = 1, cc_gen = 0, cc_cursor = 7, cc_config = ''cfgA''\<rparr>],
            cursorGen := 1\<rparr>"
  have a: "\<not> isShuttingDown ?c"
    by (simp add: isShuttingDown_def new_WiredTigerSessionCache_def)
  have b: "blockingCount ?c + 1 < 2147483648"
    by (simp add: blockingCount_def new_WiredTigerSessionCache_def)
  have o: "cursorsOut ?s = 0" by simp
  have r: "wt_pinned_range example_engine (wt_calls ?c) (session ?s) = 0"
    by (simp add: example_engine_def)
  have h: "session ?s \<noteq> 0" by (simp add: example_session_def)
  have l: "list_all (\<lambda>e. cc_cursor e \<noteq> 0) (cursors ?s)" by simp
  have e: "epoch ?s = cache_epoch ?c"
    by (simp add: example_session_def new_WiredTigerSessionCache_def)
  have t: "sint (- 100 :: 32 word) < 0" by simp
  from releaseSession_hybrid_closes_cursors [OF wt_ok_example_engine a b o r h l e t, of 5000]
    wt_ok_example_engine a t
  show ?thesis
    by (simp add: example_session_def new_WiredTigerSessionCache_def)
qed


text \<open>
  With the tunable at 0 \<^verbatim>\<open>isEngineCachingCursors\<close> holds, but \<^verbatim>\<open>releaseSession\<close> closes
  nothing: a cursor cached while the tunable was 1 is still cached in the pooled session.
\<close>

theorem releaseSession_zero_keeps_cursors:
  "releaseCursor example_engine 1 1 7 ''cfgA'' (new_WiredTigerSessionCache, example_session) =
     Inr (new_WiredTigerSessionCache\<lparr>wt_calls := [cursor_reset 7]\<rparr>,
          example_session\<lparr>cursorsOut := 0,
            cursors := [\<lparr>cc_id = 1, cc_gen = 0, cc_cursor = 7, cc_config = ''cfgA''\<rparr>],
            cursorGen := 1\<rparr>) \<and>
   isEngineCachingCursors 0 \<and>
   releaseSession example_engine 0 5000
       (example_session\<lparr>cursorsOut := 0,
            cursors := [\<lparr>cc_id = 1, cc_gen = 0, cc_cursor = 7, cc_config = ''cfgA''\<rparr>],
            cursorGen := 1\<rparr>)
       (new_WiredTigerSessionCache\<lparr>wt_calls := [cursor_reset 7]\<rparr>) =
     Inr (new_WiredTigerSessionCache
          \<lparr>wt_calls := [cursor_reset 7, transaction_pinned_range 1, session_reset 1],
           sessions := [example_session\<lparr>cursorsOut := 0,
              cursors := [\<lparr>cc_id = 1, cc_gen = 0, cc_cursor = 7, cc_config = ''cfgA''\<rparr>],
              cursorGen := 1, idleExpireTime := 5000\<rparr>]\<rparr>)"
  by (simp add: releaseCursor_def releaseSession_def BlockShutdown_enter_def BlockShutdown_exit_def
      isShuttingDown_def kShuttingDownMask_def invariantWTOK_def example_engine_def
      example_session_def new_WiredTigerSessionCache_def releaseCursor_evict.simps
      cacheSizeOf_def isEngineCachingCursors_def resetSessionConfiguration_def)

end
